theory Spec2Isabelle
  imports Complex_Main "HOL-Library.Sublist"
begin

section \<open>JavaScript values and strings\<close>

text \<open>
  The request body is parsed JSON, and the handler inspects it dynamically
  (\<^verbatim>\<open>Array.isArray\<close>, \<^verbatim>\<open>x || ''\<close>, \<^verbatim>\<open>options && options.linkScanner\<close>), so request
  data is a JSON value. A property that is missing is \<^verbatim>\<open>undefined\<close>: the value
  \<open>None\<close> of \<open>json option\<close>. \<open>JNum\<close> carries the value of the parsed number; only
  whether it is zero is ever observed.

  A string is the sequence of its UTF-16 code units, one \<open>char\<close> per unit, so the model
  covers the strings whose code units are below 256 (ASCII and Latin-1); \<open>length\<close> is
  \<^verbatim>\<open>.length\<close> and \<open>take n\<close> is \<^verbatim>\<open>.slice(0, n)\<close>.
\<close>

datatype json =
    JNull
  | JBool bool
  | JNum rat
  | JStr string
  | JArr "json list"
  | JObj "(string \<times> json) list"

datatype js_error = TypeError

text \<open>Truthiness, as \<^verbatim>\<open>!x\<close>, \<^verbatim>\<open>x || y\<close> and \<^verbatim>\<open>x && y\<close> test it.\<close>

fun truthy :: "json \<Rightarrow> bool" where
  "truthy JNull = False"
| "truthy (JBool b) = b"
| "truthy (JNum n) = (n \<noteq> 0)"
| "truthy (JStr s) = (s \<noteq> [])"
| "truthy (JArr xs) = True"
| "truthy (JObj kvs) = True"

fun truthy_opt :: "json option \<Rightarrow> bool" where
  "truthy_opt None = False"
| "truthy_opt (Some v) = truthy v"

text \<open>
  \<^verbatim>\<open>v.k\<close> for one of the keys the handler reads (payload, options, links, text,
  subject, snippet, linkScanner, grammarChecker). None of them is a built-in property of
  an array, string, number or boolean, so only an object can have it. Every call site
  guards the receiver with a truthiness test first, so the receiver is never null.
  An object is the list of its properties; the parser keeps one value per key, here
  the first binding of the key in the list.
\<close>

fun get_prop :: "json \<Rightarrow> string \<Rightarrow> json option" where
  "get_prop (JObj kvs) k = map_of kvs k"
| "get_prop v k = None"

text \<open>\<^verbatim>\<open>x || d\<close> on a possibly missing value.\<close>

fun or_else :: "json option \<Rightarrow> json \<Rightarrow> json" where
  "or_else None d = d"
| "or_else (Some v) d = (if truthy v then v else d)"

text \<open>
  \<^verbatim>\<open>String.prototype.toLowerCase\<close> on code units below 256: the ASCII capitals and the
  Latin-1 capitals (U+00C0 to U+00DE without the multiplication sign U+00D7) move up by 32.
\<close>

definition lower_char :: "char \<Rightarrow> char" where
  "lower_char c =
     (let n = (of_char c :: nat) in
      if (65 \<le> n \<and> n \<le> 90) \<or> (192 \<le> n \<and> n \<le> 222 \<and> n \<noteq> 215)
      then char_of (n + 32) else c)"

definition toLowerCase :: "string \<Rightarrow> string" where
  "toLowerCase s = map lower_char s"

text \<open>\<^verbatim>\<open>s.includes(t)\<close>: \<open>t\<close> occurs in \<open>s\<close> at some position.\<close>

fun str_includes :: "string \<Rightarrow> string \<Rightarrow> bool" where
  "str_includes [] t = (t = [])"
| "str_includes (c # cs) t = (prefix t (c # cs) \<or> str_includes cs t)"

definition endsWith :: "string \<Rightarrow> string \<Rightarrow> bool" where
  "endsWith s t = suffix t s"

text \<open>
  \<^verbatim>\<open>String.prototype.trim\<close>: the white space and line terminators below 256 are
  tab, line feed, vertical tab, form feed, carriage return, space and no-break space.
\<close>

definition is_space :: "char \<Rightarrow> bool" where
  "is_space c = ((of_char c :: nat) \<in> {9, 10, 11, 12, 13, 32, 160})"

definition trim :: "string \<Rightarrow> string" where
  "trim s = rev (dropWhile is_space (rev (dropWhile is_space s)))"

text \<open>\<^verbatim>\<open>xs.join(sep)\<close> on an array of strings.\<close>

fun join :: "string \<Rightarrow> string list \<Rightarrow> string" where
  "join sep [] = []"
| "join sep [x] = x"
| "join sep (x # y # ys) = x @ sep @ join sep (y # ys)"

section \<open>Link heuristic scorer\<close>

definition suspiciousTokens :: "string list" where
  "suspiciousTokens =
     [''verify'', ''login'', ''confirm'', ''secure'', ''account'',
      ''update'', ''reset'', ''bank'', ''paypal'', ''signin'',
      ''claim'', ''won'', ''congrats'']"

definition oddTlds :: "string list" where
  "oddTlds = [''.ru'', ''.cn'', ''.tk'', ''.ml'', ''.ga'', ''.cf'', ''.gq'']"

definition contains_reason :: "string \<Rightarrow> string" where
  "contains_reason tok = ''contains '' @ [CHR 0x22] @ tok @ [CHR 0x22]"

definition punycode_reason :: string where
  "punycode_reason = ''punycode / idn suspicious''"

definition tld_reason :: "string \<Rightarrow> string" where
  "tld_reason t = ''tld '' @ t"

text \<open>
  \<^verbatim>\<open>(url || '').toLowerCase()\<close>: a missing or falsy value is replaced by the empty
  string; a string is lower-cased; any other truthy value has no callable
  \<^verbatim>\<open>toLowerCase\<close>, and the call throws.
\<close>

fun lower_or_empty :: "json option \<Rightarrow> js_error + string" where
  "lower_or_empty None = Inr []"
| "lower_or_empty (Some (JStr s)) = Inr (toLowerCase s)"
| "lower_or_empty (Some v) = (if truthy v then Inl TypeError else Inr [])"

text \<open>The two \<^verbatim>\<open>forEach\<close> loops push onto \<open>reasons\<close> in dictionary order.\<close>

definition heuristicLinkCheck :: "json option \<Rightarrow> js_error + string list" where
  "heuristicLinkCheck url =
     (case lower_or_empty url of
        Inl e \<Rightarrow> Inl e
      | Inr lower \<Rightarrow>
          (let reasons0 = foldl (\<lambda>reasons tok.
                 if str_includes lower tok then reasons @ [contains_reason tok] else reasons)
                 [] suspiciousTokens;
               reasons1 = (if str_includes lower ''xn--''
                           then reasons0 @ [punycode_reason] else reasons0);
               reasons2 = foldl (\<lambda>reasons t.
                 if endsWith lower t then reasons @ [tld_reason t] else reasons)
                 reasons1 oddTlds
           in Inr reasons2))"

section \<open>Process-wide configuration\<close>

record config =
  GOOGLE_KEY :: string
  LT_URL :: string

text \<open>
  Read once at start-up from the environment, a map from variable names to strings:
  \<^verbatim>\<open>(process.env.GOOGLE_SAFE_BROWSING_API_KEY || '').trim()\<close> and
  \<^verbatim>\<open>process.env.LANGUAGETOOL_API_URL || 'https://api.languagetool.org/v2/check'\<close>.
\<close>

definition env_or :: "(string \<rightharpoonup> string) \<Rightarrow> string \<Rightarrow> string \<Rightarrow> string" where
  "env_or env name d = (case env name of None \<Rightarrow> d | Some v \<Rightarrow> if v = [] then d else v)"

definition load_config :: "(string \<rightharpoonup> string) \<Rightarrow> config" where
  "load_config env =
     \<lparr> GOOGLE_KEY = trim (env_or env ''GOOGLE_SAFE_BROWSING_API_KEY'' []),
       LT_URL = env_or env ''LANGUAGETOOL_API_URL'' ''https://api.languagetool.org/v2/check'' \<rparr>"

section \<open>Grammar-issue filter\<close>

text \<open>
  The grammar service is an external collaborator. Its response is modelled at the shape
  its contract gives: an issue has the four fields the filter reads, each a string when
  present (\<open>None\<close> is a missing field), and further fields the filter never looks at.
\<close>

record grammar_issue =
  severity :: "string option"
  message :: "string option"
  issue_context :: "string option"
  ruleId :: "string option"
  issue_other :: "(string \<times> json) list"

text \<open>
  The response data: the match list (\<open>None\<close> when the data has no \<^verbatim>\<open>matches\<close>) and the
  other properties of the object, which the handler copies into its answer.
\<close>

record lt_data =
  lt_matches :: "grammar_issue list option"
  lt_other :: "(string \<times> json) list"

text \<open>\<^verbatim>\<open>i.message && i.message.trim().length > n\<close>.\<close>

fun trimmed_longer :: "string option \<Rightarrow> nat \<Rightarrow> bool" where
  "trimmed_longer None n = False"
| "trimmed_longer (Some s) n = (s \<noteq> [] \<and> length (trim s) > n)"

text \<open>
  \<^verbatim>\<open>/^NAME$/.test(i.ruleId)\<close>: the argument is converted to a string, a missing
  \<^verbatim>\<open>ruleId\<close> to \<^verbatim>\<open>"undefined"\<close>; the pattern has no flag, so it matches the whole string
  only.
\<close>

fun rule_test :: "string \<Rightarrow> string option \<Rightarrow> bool" where
  "rule_test name None = (''undefined'' = name)"
| "rule_test name (Some s) = (s = name)"

text \<open>\<open>None\<close> is a null or missing response data (\<^verbatim>\<open>!issues\<close>).\<close>

definition filterGrammarIssues :: "lt_data option \<Rightarrow> grammar_issue list" where
  "filterGrammarIssues issues =
     (case issues of
        None \<Rightarrow> []
      | Some d \<Rightarrow>
         (case lt_matches d of
            None \<Rightarrow> []
          | Some ms \<Rightarrow>
             (let m1 = filter (\<lambda>i. severity i = Some ''error'') ms;
                  m2 = filter (\<lambda>i. trimmed_longer (message i) 5) m1;
                  m3 = filter (\<lambda>i. trimmed_longer (issue_context i) 10) m2;
                  m4 = filter (\<lambda>i. \<not> rule_test ''MORFOLOGIK_RULE_EN_US'' (ruleId i)) m3;
                  m5 = filter (\<lambda>i. \<not> rule_test ''COMMA_PARENTHESIS_WHITESPACE'' (ruleId i)) m4;
                  m6 = filter (\<lambda>i. \<not> rule_test ''SEND_AN_EMAIL'' (ruleId i)) m5;
                  m7 = filter (\<lambda>i. \<not> rule_test ''MISSING_COMMA_AFTER_YEAR'' (ruleId i)) m6;
                  m8 = filter (\<lambda>i. \<not> rule_test ''EN_DASH_RULE'' (ruleId i)) m7;
                  m9 = filter (\<lambda>i. \<not> rule_test ''EN_QUOTES'' (ruleId i)) m8
              in m9)))"

section \<open>External calls\<close>

text \<open>
  \<^verbatim>\<open>axios.post\<close> either resolves with the response data or rejects: with a response (a
  status outside 2xx, \<^verbatim>\<open>err.response.data\<close> being its data) or without one (a transport
  failure or timeout, described by \<^verbatim>\<open>err.message\<close>).
\<close>

datatype failure = HttpFailure json | TransportFailure string

datatype 'a outcome = Resolved 'a | Rejected failure

text \<open>\<^verbatim>\<open>err.response ? err.response.data : err.message\<close>.\<close>

fun error_payload :: "failure \<Rightarrow> json" where
  "error_payload (HttpFailure d) = d"
| "error_payload (TransportFailure msg) = JStr msg"

text \<open>
  A match of the threat-list service, at the shape its contract gives: \<^verbatim>\<open>m.threat.url\<close>,
  \<^verbatim>\<open>m.threatEntry.url\<close> and \<^verbatim>\<open>m.threatType\<close>, each a string when present.
\<close>

record threat_match =
  threat_url :: "string option"
  threatEntry_url :: "string option"
  threatType :: "string option"

text \<open>
  The normalised text of a request. \<^verbatim>\<open>(payload.text || '').slice(0, 30000)\<close> is a string
  when \<^verbatim>\<open>payload.text\<close> is a string or falsy, and an array when it is an array (arrays
  have \<^verbatim>\<open>slice\<close> too).
\<close>

datatype text_value = TextStr string | TextArr "json list"

text \<open>
  The requests the server sets out to send, and the world that answers them. A
  threat-list request carries the key (in its address) and the threat entries; a grammar
  request carries the address and the text that is form-encoded. Encoding happens inside
  the wrapper's \<^verbatim>\<open>try\<close> block, so a text that cannot be encoded is one more way for the
  attempt to be rejected. The data of a threat-list answer is its match list (\<open>None\<close>: no
  data, or data without \<^verbatim>\<open>matches\<close>); the data of a grammar answer is \<open>None\<close> when it
  is null.
\<close>

datatype http_request =
    SafeBrowsingRequest string "json list"
  | LanguageToolRequest string text_value

record network =
  safebrowsing_post :: "string \<Rightarrow> json list \<Rightarrow> threat_match list option outcome"
  languagetool_post :: "string \<Rightarrow> text_value \<Rightarrow> lt_data option outcome"

text \<open>
  The tagged result of a wrapper: \<^verbatim>\<open>{ success: true, ... }\<close> with its data or
  \<^verbatim>\<open>{ success: false, error }\<close>.
\<close>

datatype 'a tagged = Succeeded 'a | Failed json

fun success :: "'a tagged \<Rightarrow> bool" where
  "success (Succeeded x) = True"
| "success (Failed e) = False"

text \<open>
  Each wrapper returns its result and the list of requests it sent. The \<^verbatim>\<open>try\<close> block
  around \<^verbatim>\<open>await axios.post(...)\<close> turns a rejection into a failed result.
\<close>

definition googleSafeBrowsingLookup ::
  "config \<Rightarrow> network \<Rightarrow> json list \<Rightarrow> threat_match list tagged \<times> http_request list" where
  "googleSafeBrowsingLookup cfg net urls =
     (if GOOGLE_KEY cfg = [] then (Succeeded [], [])
      else
        (case safebrowsing_post net (GOOGLE_KEY cfg) urls of
           Resolved d \<Rightarrow>
             (Succeeded (case d of None \<Rightarrow> [] | Some ms \<Rightarrow> ms),
              [SafeBrowsingRequest (GOOGLE_KEY cfg) urls])
         | Rejected err \<Rightarrow>
             (Failed (error_payload err), [SafeBrowsingRequest (GOOGLE_KEY cfg) urls])))"

definition languageToolCheck ::
  "config \<Rightarrow> network \<Rightarrow> text_value \<Rightarrow> lt_data option tagged \<times> http_request list" where
  "languageToolCheck cfg net text =
     (case languagetool_post net (LT_URL cfg) text of
        Resolved d \<Rightarrow> (Succeeded d, [LanguageToolRequest (LT_URL cfg) text])
      | Rejected err \<Rightarrow> (Failed (error_payload err), [LanguageToolRequest (LT_URL cfg) text]))"

section \<open>The analyze route\<close>

subsection \<open>Normalising the payload\<close>

text \<open>\<^verbatim>\<open>Array.isArray(payload.links) ? payload.links.slice(0, 50) : []\<close>.\<close>

fun normalize_links :: "json option \<Rightarrow> json list" where
  "normalize_links (Some (JArr xs)) = take 50 xs"
| "normalize_links v = []"

text \<open>
  \<^verbatim>\<open>(payload.text || '').slice(0, 30000)\<close>: a truthy value that is neither a string nor
  an array has no \<^verbatim>\<open>slice\<close>, and the call throws.
\<close>

fun slice_value :: "json \<Rightarrow> nat \<Rightarrow> js_error + text_value" where
  "slice_value (JStr s) n = Inr (TextStr (take n s))"
| "slice_value (JArr xs) n = Inr (TextArr (take n xs))"
| "slice_value v n = Inl TypeError"

definition normalize_text :: "json option \<Rightarrow> js_error + text_value" where
  "normalize_text v = slice_value (or_else v (JStr [])) 30000"

fun text_slice :: "text_value \<Rightarrow> nat \<Rightarrow> json" where
  "text_slice (TextStr s) n = JStr (take n s)"
| "text_slice (TextArr xs) n = JArr (take n xs)"

fun text_length :: "text_value \<Rightarrow> nat" where
  "text_length (TextStr s) = length s"
| "text_length (TextArr xs) = length xs"

fun text_truthy :: "text_value \<Rightarrow> bool" where
  "text_truthy (TextStr s) = (s \<noteq> [])"
| "text_truthy (TextArr xs) = True"

text \<open>\<^verbatim>\<open>options && options.flag\<close>, as a condition.\<close>

fun option_on :: "json option \<Rightarrow> string \<Rightarrow> bool" where
  "option_on None k = False"
| "option_on (Some opts) k = (truthy opts \<and> truthy_opt (get_prop opts k))"

subsection \<open>Link scanning\<close>

text \<open>An entry \<^verbatim>\<open>{ url, reasons }\<close> of \<open>heuristicResults\<close> and of \<open>suspiciousLinks\<close>.\<close>

type_synonym link_finding = "json \<times> string list"

text \<open>
  \<^verbatim>\<open>for (const url of links)\<close>: a throwing \<open>heuristicLinkCheck\<close> ends the loop and the
  request.
\<close>

fun heuristic_loop :: "json list \<Rightarrow> link_finding list \<Rightarrow> js_error + link_finding list" where
  "heuristic_loop [] heuristicResults = Inr heuristicResults"
| "heuristic_loop (url # links) heuristicResults =
     (case heuristicLinkCheck (Some url) of
        Inl e \<Rightarrow> Inl e
      | Inr reasons \<Rightarrow>
          heuristic_loop links
            (if reasons \<noteq> [] then heuristicResults @ [(url, reasons)] else heuristicResults))"

text \<open>
  The url of a match: \<^verbatim>\<open>m.threat.url\<close> if truthy, else \<^verbatim>\<open>m.threatEntry.url\<close> if
  truthy, else null (\<open>None\<close>).
\<close>

fun nonempty :: "string option \<Rightarrow> string option" where
  "nonempty None = None"
| "nonempty (Some s) = (if s = [] then None else Some s)"

definition entryUrl :: "threat_match \<Rightarrow> string option" where
  "entryUrl m =
     (case nonempty (threat_url m) of
        Some u \<Rightarrow> Some u
      | None \<Rightarrow> nonempty (threatEntry_url m))"

definition threat_finding :: "threat_match \<Rightarrow> link_finding" where
  "threat_finding m =
     (JStr (case entryUrl m of None \<Rightarrow> ''(unknown)'' | Some u \<Rightarrow> u),
      [''Google Safe Browsing match: '' @
         (case nonempty (threatType m) of None \<Rightarrow> ''THREAT'' | Some t \<Rightarrow> t)])"

text \<open>
  The body of \<^verbatim>\<open>if (options && options.linkScanner)\<close>: the heuristic loop, then one
  lookup of all links; the findings of the threat list come first in \<open>suspiciousLinks\<close>.
\<close>

definition link_scanning ::
  "config \<Rightarrow> network \<Rightarrow> json list \<Rightarrow> (js_error + link_finding list) \<times> http_request list" where
  "link_scanning cfg net links =
     (case heuristic_loop links [] of
        Inl e \<Rightarrow> (Inl e, [])
      | Inr heuristicResults \<Rightarrow>
          (case googleSafeBrowsingLookup cfg net links of
             (Succeeded ms, sent) \<Rightarrow> (Inr (map threat_finding ms @ heuristicResults), sent)
           | (Failed e, sent) \<Rightarrow> (Inr heuristicResults, sent)))"

subsection \<open>Grammar check\<close>

text \<open>
  The value of \<open>grammar\<close> when it is not null:
  \<^verbatim>\<open>{ ...lt.data, matches: filterGrammarIssues(lt.data) }\<close> or \<^verbatim>\<open>{ error: ... }\<close>.
\<close>

datatype grammar_value = GrammarResult lt_data | GrammarError json

fun with_filtered_matches :: "lt_data option \<Rightarrow> lt_data" where
  "with_filtered_matches None = \<lparr> lt_matches = Some (filterGrammarIssues None), lt_other = [] \<rparr>"
| "with_filtered_matches (Some d) = d \<lparr> lt_matches := Some (filterGrammarIssues (Some d)) \<rparr>"

text \<open>
  \<open>None\<close> is \<^verbatim>\<open>grammar = null\<close>: the check is off, or the text is empty or shorter than
  10.
\<close>

definition grammar_check ::
  "config \<Rightarrow> network \<Rightarrow> json option \<Rightarrow> text_value \<Rightarrow> grammar_value option \<times> http_request list" where
  "grammar_check cfg net options text =
     (if option_on options ''grammarChecker'' \<and> text_truthy text \<and> text_length text \<ge> 10
      then
        (case languageToolCheck cfg net text of
           (Succeeded d, sent) \<Rightarrow> (Some (GrammarResult (with_filtered_matches d)), sent)
         | (Failed e, sent) \<Rightarrow>
             (Some (GrammarError (if truthy e then e else JStr ''LanguageTool error'')), sent))
      else (None, []))"

subsection \<open>Phishing phrases\<close>

definition phishingPhrases :: "string list" where
  "phishingPhrases =
     [''you won'', ''claim your'', ''click here'', ''verify your account'',
      ''update your account'', ''urgent'', ''congratulations'', ''prize'', ''winner'']"

text \<open>
  \<^verbatim>\<open>(text || '').toLowerCase()\<close>, then the filter over the dictionary. An array has no
  \<^verbatim>\<open>toLowerCase\<close>.
\<close>

fun phishing_check :: "text_value \<Rightarrow> js_error + string list" where
  "phishing_check (TextStr s) =
     Inr (filter (\<lambda>p. str_includes (toLowerCase s) p) phishingPhrases)"
| "phishing_check (TextArr xs) = Inl TypeError"

subsection \<open>Overall status\<close>

datatype verdict = Safe | Warning | Suspicious

text \<open>\<^verbatim>\<open>grammar && grammar.matches\<close>: null and the error marker have no match list.\<close>

fun grammar_matches :: "grammar_value option \<Rightarrow> grammar_issue list option" where
  "grammar_matches None = None"
| "grammar_matches (Some (GrammarError e)) = None"
| "grammar_matches (Some (GrammarResult d)) = lt_matches d"

fun longer_than :: "'a list option \<Rightarrow> nat \<Rightarrow> bool" where
  "longer_than None n = False"
| "longer_than (Some xs) n = (length xs > n)"

definition overall_status ::
  "link_finding list \<Rightarrow> string list \<Rightarrow> grammar_value option \<Rightarrow> verdict" where
  "overall_status suspicious found grammar_v =
     (if length suspicious > 0 \<or> length found > 0 then Suspicious
      else if longer_than (grammar_matches grammar_v) 15 then Warning
      else Safe)"

subsection \<open>Deduplicating the suspicious links\<close>

text \<open>
  A \<^verbatim>\<open>Map\<close> keeps its keys in the order of their first insertion; \<^verbatim>\<open>set\<close> on a key
  that is there replaces the value in place. The keys are urls: strings, compared by
  value.
\<close>

fun map_set :: "('k \<times> 'v) list \<Rightarrow> 'k \<Rightarrow> 'v \<Rightarrow> ('k \<times> 'v) list" where
  "map_set [] k v = [(k, v)]"
| "map_set ((k', v') # m) k v =
     (if k' = k then (k', v) # m else (k', v') # map_set m k v)"

text \<open>\<^verbatim>\<open>map.get(k) || []\<close>.\<close>

definition map_get_or_empty :: "('k \<times> 'v list) list \<Rightarrow> 'k \<Rightarrow> 'v list" where
  "map_get_or_empty m k = (case map_of m k of None \<Rightarrow> [] | Some rs \<Rightarrow> rs)"

text \<open>
  \<^verbatim>\<open>suspiciousLinks.forEach(s => map.set(s.url, (map.get(s.url) || []).concat(s.reasons || [])))\<close>
\<close>

definition group_by_url :: "link_finding list \<Rightarrow> (json \<times> string list) list" where
  "group_by_url suspiciousLinks =
     foldl (\<lambda>m s. map_set m (fst s) (map_get_or_empty m (fst s) @ snd s)) [] suspiciousLinks"

text \<open>
  \<^verbatim>\<open>Array.from(new Set(reasons))\<close>: a \<^verbatim>\<open>Set\<close> keeps each value once, in the order of
  first insertion.
\<close>

definition set_add :: "'a list \<Rightarrow> 'a \<Rightarrow> 'a list" where
  "set_add s x = (if x \<in> set s then s else s @ [x])"

definition new_Set :: "'a list \<Rightarrow> 'a list" where
  "new_Set xs = foldl set_add [] xs"

definition finalSuspicious :: "link_finding list \<Rightarrow> (json \<times> string) list" where
  "finalSuspicious suspiciousLinks =
     map (\<lambda>(url, reasons). (url, join '', '' (new_Set reasons))) (group_by_url suspiciousLinks)"

subsection \<open>The handler\<close>

text \<open>
  The body of the 200 answer (with \<^verbatim>\<open>success: true\<close>); \<open>grammar = None\<close> is the null the
  handler sends when no grammar check ran.
\<close>

record analysis_result =
  subject :: json
  snippet :: json
  textLength :: nat
  suspiciousLinks :: "(json \<times> string) list"
  grammar :: "grammar_value option"
  foundPhrases :: "string list"
  overall :: verdict

text \<open>
  The three answers: 200 with a result, 400 for a missing payload
  (\<^verbatim>\<open>{ success: false, error: 'Missing payload' }\<close>), 500 for anything thrown inside the
  handler's \<^verbatim>\<open>try\<close>.
\<close>

datatype response = Analyzed analysis_result | MissingPayload | ServerError js_error

fun status :: "response \<Rightarrow> nat" where
  "status (Analyzed r) = 200"
| "status MissingPayload = 400"
| "status (ServerError e) = 500"



text \<open>
  The steps after the payload is known to be there, with the requests sent on the way.
  A step that throws ends the request with the requests sent so far.
\<close>

definition analyze_payload ::
  "config \<Rightarrow> network \<Rightarrow> json \<Rightarrow> json option \<Rightarrow> response \<times> http_request list" where
  "analyze_payload cfg net payload options =
     (let links = normalize_links (get_prop payload ''links'') in
      case normalize_text (get_prop payload ''text'') of
        Inl e \<Rightarrow> (ServerError e, [])
      | Inr text \<Rightarrow>
         (let subject_v = or_else (get_prop payload ''subject'') (JStr []);
              snippet_v = or_else (get_prop payload ''snippet'') (text_slice text 200)
          in
          case (if option_on options ''linkScanner'' then link_scanning cfg net links
                else (Inr [], [])) of
            (Inl e, sent1) \<Rightarrow> (ServerError e, sent1)
          | (Inr suspicious, sent1) \<Rightarrow>
             (case grammar_check cfg net options text of
                (grammar_v, sent2) \<Rightarrow>
                  (case phishing_check text of
                     Inl e \<Rightarrow> (ServerError e, sent1 @ sent2)
                   | Inr found \<Rightarrow>
                       (Analyzed
                          \<lparr> subject = subject_v,
                            snippet = snippet_v,
                            textLength = text_length text,
                            suspiciousLinks = finalSuspicious suspicious,
                            grammar = grammar_v,
                            foundPhrases = found,
                            overall = overall_status suspicious found grammar_v \<rparr>,
                        sent1 @ sent2)))))"

text \<open>
  \<^verbatim>\<open>const { payload, options } = req.body; if (!payload) return res.status(400)...\<close>
  The body parser hands over an object or an array, never null.
\<close>

definition analyze :: "config \<Rightarrow> network \<Rightarrow> json \<Rightarrow> response \<times> http_request list" where
  "analyze cfg net body =
     (case get_prop body ''payload'' of
        None \<Rightarrow> (MissingPayload, [])
      | Some payload \<Rightarrow>
          if truthy payload then analyze_payload cfg net payload (get_prop body ''options'')
          else (MissingPayload, []))"

section \<open>Truncated requests\<close>

text \<open>
  The truncation that the specification describes, as a function on requests: the
  links array of the payload cut to its first 50 entries and its text to its first
  30000 characters (or entries), everything else as it is. The source has no such
  function; it is what the answers of the handler are compared against.
\<close>

fun truncate_links :: "json \<Rightarrow> json" where
  "truncate_links (JArr xs) = JArr (take 50 xs)"
| "truncate_links v = v"

fun truncate_text :: "json \<Rightarrow> json" where
  "truncate_text (JStr s) = JStr (take 30000 s)"
| "truncate_text (JArr ys) = JArr (take 30000 ys)"
| "truncate_text v = v"

fun truncate_property :: "string \<times> json \<Rightarrow> string \<times> json" where
  "truncate_property (k, v) =
     (k, if k = ''links'' then truncate_links v
         else if k = ''text'' then truncate_text v
         else v)"

fun truncate_payload :: "json \<Rightarrow> json" where
  "truncate_payload (JObj kvs) = JObj (map truncate_property kvs)"
| "truncate_payload v = v"

fun truncate_request :: "json \<Rightarrow> json" where
  "truncate_request (JObj kvs) =
     JObj (map (\<lambda>(k, v). (k, if k = ''payload'' then truncate_payload v else v)) kvs)"
| "truncate_request v = v"

section \<open>Sample environment\<close>

text \<open>
  A threat-list service that reports a bank link as malware together with a grammar
  service that is down; a grammar service that reports twenty genuine errors together
  with a threat list that knows nothing; a configuration with a key.
\<close>

definition sample_match :: threat_match where
  "sample_match =
     \<lparr> threat_url = Some ''http://bank.example'',
       threatEntry_url = None,
       threatType = Some ''MALWARE'' \<rparr>"

definition sample_network :: network where
  "sample_network =
     \<lparr> safebrowsing_post = (\<lambda>key urls. Resolved (Some [sample_match])),
       languagetool_post = (\<lambda>url text. Rejected (TransportFailure ''timeout of 20000ms exceeded'')) \<rparr>"

definition keyed_config :: config where
  "keyed_config = \<lparr> GOOGLE_KEY = ''k'', LT_URL = ''https://api.languagetool.org/v2/check'' \<rparr>"

definition sample_issue :: grammar_issue where
  "sample_issue =
     \<lparr> severity = Some ''error'',
       message = Some ''Possible agreement error'',
       issue_context = Some ''This are a sentence'',
       ruleId = Some ''SUBJECT_VERB_AGREEMENT'',
       issue_other = [] \<rparr>"

definition grammar_network :: network where
  "grammar_network =
     \<lparr> safebrowsing_post = (\<lambda>key urls. Resolved None),
       languagetool_post = (\<lambda>url text.
          Resolved (Some \<lparr> lt_matches = Some (replicate 20 sample_issue), lt_other = [] \<rparr>)) \<rparr>"

text \<open>A request with nothing suspicious in it but its grammar.\<close>

definition quiet_body :: json where
  "quiet_body =
     JObj [(''payload'', JObj [(''text'', JStr ''This are a sentence'')]),
           (''options'', JObj [(''grammarChecker'', JBool True)])]"

definition quiet_result :: analysis_result where
  "quiet_result =
     \<lparr> subject = JStr [],
       snippet = JStr ''This are a sentence'',
       textLength = 19,
       suspiciousLinks = [],
       grammar = Some (GrammarResult
                   \<lparr> lt_matches = Some (replicate 20 sample_issue), lt_other = [] \<rparr>),
       foundPhrases = [],
       overall = Warning \<rparr>"

text \<open>A request with one link that both the threat list and the heuristics flag.\<close>

definition flagged_body :: json where
  "flagged_body =
     JObj [(''payload'', JObj [(''text'', JStr ''hello''),
                               (''links'', JArr [JStr ''http://bank.example''])]),
           (''options'', JObj [(''linkScanner'', JBool True)])]"

definition flagged_result :: analysis_result where
  "flagged_result =
     \<lparr> subject = JStr [],
       snippet = JStr ''hello'',
       textLength = 5,
       suspiciousLinks =
         [(JStr ''http://bank.example'',
           ''Google Safe Browsing match: MALWARE, contains '' @ [CHR 0x22] @ ''bank'' @ [CHR 0x22])],
       grammar = None,
       foundPhrases = [],
       overall = Suspicious \<rparr>"

text \<open>
  A configuration without a key; a network on which every call fails; requests with a
  text of 9 and of 10 characters; a request whose links field is a string; a request with
  60 links and a text of 40000 characters, and the same request cut to 50 links and
  30000 characters.
\<close>

definition unkeyed_config :: config where
  "unkeyed_config = \<lparr> GOOGLE_KEY = [], LT_URL = ''https://api.languagetool.org/v2/check'' \<rparr>"

definition offline_network :: network where
  "offline_network =
     \<lparr> safebrowsing_post = (\<lambda>key urls. Rejected (HttpFailure (JObj [(''error'', JStr ''forbidden'')]))),
       languagetool_post = (\<lambda>url text. Rejected (TransportFailure ''timeout of 20000ms exceeded'')) \<rparr>"




definition no_links_body :: json where
  "no_links_body =
     JObj [(''payload'', JObj [(''text'', JStr ''hello''),
                               (''links'', JStr ''http://bank.example'')]),
           (''options'', JObj [(''linkScanner'', JBool True)])]"

definition big_body :: json where
  "big_body =
     JObj [(''payload'', JObj [(''text'', JStr (replicate 40000 CHR ''a'')),
                               (''links'', JArr (replicate 60 (JStr ''http://a.example'')))]),
           (''options'', JObj [(''linkScanner'', JBool True), (''grammarChecker'', JBool True)])]"

definition cut_body :: json where
  "cut_body =
     JObj [(''payload'', JObj [(''text'', JStr (replicate 30000 CHR ''a'')),
                               (''links'', JArr (replicate 50 (JStr ''http://a.example'')))]),
           (''options'', JObj [(''linkScanner'', JBool True), (''grammarChecker'', JBool True)])]"

text \<open>A request whose text has three of the phrases, not in dictionary order.\<close>

definition phrase_body :: json where
  "phrase_body =
     JObj [(''payload'', JObj [(''text'', JStr ''URGENT: You Won a prize'')])]"

definition phrase_result :: analysis_result where
  "phrase_result =
     \<lparr> subject = JStr [], snippet = JStr ''URGENT: You Won a prize'', textLength = 23,
       suspiciousLinks = [], grammar = None,
       foundPhrases = [''you won'', ''urgent'', ''prize''], overall = Suspicious \<rparr>"

text \<open>A request whose text is a number.\<close>

definition number_text_body :: json where
  "number_text_body = JObj [(''payload'', JObj [(''text'', JNum 5)])]"


section \<open>Basic facts about the string operations\<close>

lemma str_includes_sublist: "str_includes s t \<longleftrightarrow> sublist t s"
  by (induction s) (auto simp: sublist_Cons_right)

lemma sublist_map_iff:
  "sublist t (map f s) \<longleftrightarrow> (\<exists>a b c. s = a @ b @ c \<and> map f b = t)"
proof
  assume "sublist t (map f s)"
  then obtain ps ss where "map f s = ps @ t @ ss" by (auto simp: sublist_def)
  then obtain a r where s: "s = a @ r" and r: "map f r = t @ ss"
    by (metis map_eq_append_conv)
  from r obtain b c where "r = b @ c" and "map f b = t"
    by (metis map_eq_append_conv)
  with s show "\<exists>a b c. s = a @ b @ c \<and> map f b = t" by blast
next
  assume "\<exists>a b c. s = a @ b @ c \<and> map f b = t"
  then obtain a b c where "s = a @ b @ c" and "map f b = t" by blast
  then have "map f s = map f a @ t @ map f c" by simp
  then show "sublist t (map f s)" by (simp only: sublist_appendI)
qed



section \<open>The threat-list client without a credential\<close>

lemma load_config_no_key:
  "env ''GOOGLE_SAFE_BROWSING_API_KEY'' = None \<Longrightarrow> GOOGLE_KEY (load_config env) = []"
  by (simp add: load_config_def env_or_def trim_def)

text \<open>
  C6. With no credential configured (the key is the empty string, as it is when the
  environment variable is unset), the threat-list client answers success with an empty
  match list for every url list and every behaviour of the network, and the list of
  requests it sent is empty: no network access is attempted.
\<close>

theorem lookup_without_key:
  "GOOGLE_KEY cfg = [] \<Longrightarrow> googleSafeBrowsingLookup cfg net urls = (Succeeded [], [])"
  by (simp add: googleSafeBrowsingLookup_def)

theorem lookup_without_key_witness:
  "GOOGLE_KEY (load_config Map.empty) = [] \<and>
   googleSafeBrowsingLookup (load_config Map.empty) sample_network
       [JStr ''http://bank.example/login'', JStr ''http://example.org''] =
     (Succeeded [], [])"
  using lookup_without_key [of "load_config Map.empty" sample_network
      "[JStr ''http://bank.example/login'', JStr ''http://example.org'']"]
  by (simp add: load_config_no_key)

section \<open>The grammar-issue filter\<close>

lemma filterGrammarIssues_filter:
  "\<exists>P. \<forall>d. filterGrammarIssues (Some d) =
      filter P (case lt_matches d of None \<Rightarrow> [] | Some ms \<Rightarrow> ms)"
proof -
  define P where "P = (\<lambda>x::grammar_issue. severity x = Some ''error'' \<and>
      trimmed_longer (message x) 5 \<and>
      trimmed_longer (issue_context x) 10 \<and>
      \<not> rule_test ''MORFOLOGIK_RULE_EN_US'' (ruleId x) \<and>
      \<not> rule_test ''COMMA_PARENTHESIS_WHITESPACE'' (ruleId x) \<and>
      \<not> rule_test ''SEND_AN_EMAIL'' (ruleId x) \<and>
      \<not> rule_test ''MISSING_COMMA_AFTER_YEAR'' (ruleId x) \<and>
      \<not> rule_test ''EN_DASH_RULE'' (ruleId x) \<and>
      \<not> rule_test ''EN_QUOTES'' (ruleId x))"
  have "filterGrammarIssues (Some d) =
      filter P (case lt_matches d of None \<Rightarrow> [] | Some ms \<Rightarrow> ms)" for d
    unfolding filterGrammarIssues_def Let_def filter_filter P_def
    by (cases "lt_matches d") simp_all
  then show ?thesis by blast
qed

text \<open>
  C4. The filter is idempotent. The function takes the response data and returns the
  narrowed match list, so applying it again means applying it to data whose match list
  is the first result; whatever the other properties of that data, the second result is
  the first one. In particular this holds for the \<open>grammar\<close> object that the handler
  builds from the response data and the filtered list.
\<close>

theorem filterGrammarIssues_idempotent:
  "filterGrammarIssues
      (Some \<lparr> lt_matches = Some (filterGrammarIssues issues), lt_other = other \<rparr>) =
   filterGrammarIssues issues
   \<and> filterGrammarIssues (Some (with_filtered_matches issues)) = filterGrammarIssues issues"
proof -
  obtain P where P: "\<And>d. filterGrammarIssues (Some d) =
      filter P (case lt_matches d of None \<Rightarrow> [] | Some ms \<Rightarrow> ms)"
    using filterGrammarIssues_filter by blast
  have none: "filterGrammarIssues None = []"
    by (simp add: filterGrammarIssues_def)
  have "filterGrammarIssues (Some \<lparr> lt_matches = Some (filterGrammarIssues issues), lt_other = other \<rparr>) =
      filterGrammarIssues issues"
    by (cases issues) (simp_all add: P none)
  moreover have "filterGrammarIssues (Some (with_filtered_matches issues)) =
      filterGrammarIssues issues"
    by (cases issues) (simp_all add: P none)
  ultimately show ?thesis by blast
qed

section \<open>The link heuristic scorer\<close>

lemma str_includes_lower_iff:
  "str_includes (toLowerCase s) t \<longleftrightarrow> (\<exists>a b c. s = a @ b @ c \<and> toLowerCase b = t)"
  by (simp add: str_includes_sublist toLowerCase_def sublist_map_iff)







section \<open>Deduplication of the suspicious links\<close>

lemma map_set_keys:
  "map fst (map_set m k v) = (if k \<in> set (map fst m) then map fst m else map fst m @ [k])"
proof (induction m)
  case Nil
  show ?case by simp
next
  case (Cons p m)
  show ?case
  proof (cases "fst p = k")
    case True
    then show ?thesis by (cases p) simp
  next
    case False
    with Cons show ?thesis by (cases p) auto
  qed
qed

lemma map_of_map_set: "map_of (map_set m k v) = (map_of m)(k \<mapsto> v)"
  by (induction m) (auto simp: fun_eq_iff)

lemma new_Set_snoc: "new_Set (xs @ [x]) = set_add (new_Set xs) x"
  by (simp add: new_Set_def)

lemma set_new_Set: "set (new_Set xs) = set xs"
  by (induction xs rule: rev_induct) (auto simp: new_Set_snoc set_add_def, simp add: new_Set_def)

lemma distinct_new_Set: "distinct (new_Set xs)"
  by (induction xs rule: rev_induct) (auto simp: new_Set_snoc set_add_def, simp add: new_Set_def)

lemma group_by_url_snoc:
  "group_by_url (sl @ [s]) =
     map_set (group_by_url sl) (fst s) (map_get_or_empty (group_by_url sl) (fst s) @ snd s)"
  by (simp add: group_by_url_def)

lemma group_by_url_keys: "map fst (group_by_url sl) = new_Set (map fst sl)"
proof (induction sl rule: rev_induct)
  case Nil
  show ?case by (simp add: group_by_url_def new_Set_def)
next
  case (snoc s sl)
  then show ?case
    by (simp add: group_by_url_snoc map_set_keys new_Set_snoc set_add_def set_new_Set)
qed

lemma group_by_url_reasons:
  "map_get_or_empty (group_by_url sl) u = concat (map snd (filter (\<lambda>s. fst s = u) sl))"
proof (induction sl rule: rev_induct)
  case Nil
  show ?case by (simp add: group_by_url_def map_get_or_empty_def)
next
  case (snoc s sl)
  then show ?case
    by (auto simp: group_by_url_snoc map_get_or_empty_def map_of_map_set split: option.splits)
qed

lemma distinct_keys_filter:
  "distinct (map fst xs) \<Longrightarrow> (u, d) \<in> set xs \<Longrightarrow> filter (\<lambda>e. fst e = u) xs = [(u, d)]"
proof (induction xs)
  case Nil
  then show ?case by simp
next
  case (Cons x xs)
  show ?case
  proof (cases "fst x = u")
    case True
    with Cons.prems have "x = (u, d)" and "\<forall>e \<in> set xs. fst e \<noteq> u"
      by (auto simp: rev_image_eqI)
    then show ?thesis by (simp add: filter_empty_conv)
  next
    case False
    with Cons show ?thesis by auto
  qed
qed

lemma finalSuspicious_keys: "map fst (finalSuspicious sl) = new_Set (map fst sl)"
  by (simp add: finalSuspicious_def group_by_url_keys [symmetric] case_prod_unfold comp_def)

lemma finalSuspicious_entry:
  assumes "(u, rs0) \<in> set sl"
  shows "filter (\<lambda>e. fst e = u) (finalSuspicious sl) =
           [(u, join '', '' (new_Set (concat (map snd (filter (\<lambda>s. fst s = u) sl)))))]"
proof -
  have d: "distinct (map fst (group_by_url sl))"
    by (simp add: group_by_url_keys distinct_new_Set)
  from assms have "u \<in> set (map fst (group_by_url sl))"
    by (simp add: group_by_url_keys set_new_Set rev_image_eqI)
  then obtain rs where rs: "(u, rs) \<in> set (group_by_url sl)" by auto
  with d have "map_of (group_by_url sl) u = Some rs" by simp
  then have "rs = concat (map snd (filter (\<lambda>s. fst s = u) sl))"
    using group_by_url_reasons [of sl u] by (simp add: map_get_or_empty_def)
  with rs have "(u, join '', '' (new_Set (concat (map snd (filter (\<lambda>s. fst s = u) sl)))))
      \<in> set (finalSuspicious sl)"
    by (force simp: finalSuspicious_def)
  moreover have "distinct (map fst (finalSuspicious sl))"
    by (simp add: finalSuspicious_keys distinct_new_Set)
  ultimately show ?thesis by (rule distinct_keys_filter [rotated])
qed

section \<open>The shape of a successful answer\<close>

lemma map_set_not_Nil: "map_set m k v \<noteq> []"
  by (cases m) (auto split: if_splits)

lemma group_by_url_Nil_iff: "group_by_url sl = [] \<longleftrightarrow> sl = []"
proof (cases sl rule: rev_cases)
  case Nil
  then show ?thesis by (simp add: group_by_url_def)
next
  case (snoc ys y)
  then show ?thesis by (simp add: group_by_url_def map_set_not_Nil)
qed

lemma finalSuspicious_Nil_iff: "finalSuspicious sl = [] \<longleftrightarrow> sl = []"
  by (simp add: finalSuspicious_def group_by_url_Nil_iff)

lemma analyze_Analyzed:
  assumes "analyze cfg net body = (Analyzed r, sent)"
  obtains payload tx suspicious sent1 sent2 where
    "get_prop body ''payload'' = Some payload" and "truthy payload"
    and "normalize_text (get_prop payload ''text'') = Inr tx"
    and "(if option_on (get_prop body ''options'') ''linkScanner''
          then link_scanning cfg net (normalize_links (get_prop payload ''links''))
          else (Inr [], [])) = (Inr suspicious, sent1)"
    and "grammar_check cfg net (get_prop body ''options'') tx = (grammar r, sent2)"
    and "phishing_check tx = Inr (foundPhrases r)"
    and "subject r = or_else (get_prop payload ''subject'') (JStr [])"
    and "snippet r = or_else (get_prop payload ''snippet'') (text_slice tx 200)"
    and "textLength r = text_length tx"
    and "suspiciousLinks r = finalSuspicious suspicious"
    and "overall r = overall_status suspicious (foundPhrases r) (grammar r)"
    and "sent = sent1 @ sent2"
proof -
  from assms obtain payload where p: "get_prop body ''payload'' = Some payload" "truthy payload"
    and ap: "analyze_payload cfg net payload (get_prop body ''options'') = (Analyzed r, sent)"
    by (auto simp: analyze_def split: option.splits if_splits)
  from ap obtain tx where t: "normalize_text (get_prop payload ''text'') = Inr tx"
    by (auto simp: analyze_payload_def Let_def split: sum.splits)
  obtain ls sent1 where l: "(if option_on (get_prop body ''options'') ''linkScanner''
          then link_scanning cfg net (normalize_links (get_prop payload ''links''))
          else (Inr [], [])) = (ls, sent1)"
    by (metis surj_pair)
  obtain g sent2 where g: "grammar_check cfg net (get_prop body ''options'') tx = (g, sent2)"
    by (metis surj_pair)
  from ap t l g obtain suspicious where s: "ls = Inr suspicious"
    by (cases ls) (simp_all add: analyze_payload_def Let_def)
  from ap t l g s obtain found where f: "phishing_check tx = Inr found"
    by (cases "phishing_check tx") (simp_all add: analyze_payload_def Let_def)
  from ap t l g s f have r: "r = \<lparr> subject = or_else (get_prop payload ''subject'') (JStr []),
                            snippet = or_else (get_prop payload ''snippet'') (text_slice tx 200),
                            textLength = text_length tx,
                            suspiciousLinks = finalSuspicious suspicious,
                            grammar = g,
                            foundPhrases = found,
                            overall = overall_status suspicious found g \<rparr>"
      and "sent = sent1 @ sent2"
    by (simp_all add: analyze_payload_def Let_def)
  with p t l g s f show ?thesis
    by (intro that [of payload tx suspicious sent1 sent2]) simp_all
qed

section \<open>The phishing phrase matcher\<close>

lemma phrase_phishing:
  "phishing_check (TextStr ''URGENT: You Won a prize'') = Inr [''you won'', ''urgent'', ''prize'']"
  by code_simp

lemma phrase_analyze: "analyze keyed_config sample_network phrase_body = (Analyzed phrase_result, [])"
  by (simp add: analyze_def analyze_payload_def phrase_body_def phrase_result_def
      normalize_text_def phrase_phishing grammar_check_def finalSuspicious_def group_by_url_def
      overall_status_def
      del: phishing_check.simps)

text \<open>
  C9. On every text string the matcher returns (it never throws) the phrases of the
  dictionary that the lower-cased text includes, which are the phrases that some
  substring of the text lower-cases to; the result is the dictionary filtered, so a
  subsequence of it in dictionary order, whatever the order in the text. This list is
  the \<open>foundPhrases\<close> of every successful answer to a request whose normalised text is
  that string.
\<close>

theorem phishing_check_spec:
  "phishing_check (TextStr s) = Inr (filter (str_includes (toLowerCase s)) phishingPhrases)
   \<and> (\<forall>p. str_includes (toLowerCase s) p \<longleftrightarrow> (\<exists>a b c. s = a @ b @ c \<and> toLowerCase b = p))
   \<and> subseq (filter (str_includes (toLowerCase s)) phishingPhrases) phishingPhrases
   \<and> (\<forall>cfg net body payload r sent.
         analyze cfg net body = (Analyzed r, sent) \<and>
         get_prop body ''payload'' = Some payload \<and>
         normalize_text (get_prop payload ''text'') = Inr (TextStr s)
         \<longrightarrow> foundPhrases r = filter (str_includes (toLowerCase s)) phishingPhrases)"
proof -
  have "foundPhrases r = filter (str_includes (toLowerCase s)) phishingPhrases"
    if "analyze cfg net body = (Analyzed r, sent)"
      and "get_prop body ''payload'' = Some payload"
      and "normalize_text (get_prop payload ''text'') = Inr (TextStr s)"
    for cfg net body payload r sent
    using that by (auto elim!: analyze_Analyzed)
  moreover have "phishing_check (TextStr s) =
      Inr (filter (str_includes (toLowerCase s)) phishingPhrases)"
    by simp
  moreover have "subseq (filter (str_includes (toLowerCase s)) phishingPhrases) phishingPhrases"
    by simp
  ultimately show ?thesis
    using str_includes_lower_iff [of s] by blast
qed

theorem phishing_check_spec_witness:
  "analyze keyed_config sample_network phrase_body = (Analyzed phrase_result, [])
   \<and> foundPhrases phrase_result = [''you won'', ''urgent'', ''prize'']
   \<and> filter (str_includes (toLowerCase ''URGENT: You Won a prize'')) phishingPhrases =
       [''you won'', ''urgent'', ''prize'']"
proof -
  have "normalize_text (get_prop (JObj [(''text'', JStr ''URGENT: You Won a prize'')]) ''text'') =
      Inr (TextStr ''URGENT: You Won a prize'')"
    by (simp add: normalize_text_def)
  moreover have "get_prop phrase_body ''payload'' =
      Some (JObj [(''text'', JStr ''URGENT: You Won a prize'')])"
    by (simp add: phrase_body_def)
  ultimately have "foundPhrases phrase_result =
      filter (str_includes (toLowerCase ''URGENT: You Won a prize'')) phishingPhrases"
    using phishing_check_spec [of "''URGENT: You Won a prize''"] phrase_analyze by blast
  then show ?thesis
    using phrase_analyze by (simp add: phrase_result_def)
qed

section \<open>The overall verdict\<close>

lemma quiet_grammar_check:
  "grammar_check keyed_config grammar_network (Some (JObj [(''grammarChecker'', JBool True)]))
      (TextStr ''This are a sentence'') =
   (Some (GrammarResult \<lparr> lt_matches = Some (replicate 20 sample_issue), lt_other = [] \<rparr>),
    [LanguageToolRequest ''https://api.languagetool.org/v2/check''
       (TextStr ''This are a sentence'')])"
  by code_simp

lemma quiet_phishing_check: "phishing_check (TextStr ''This are a sentence'') = Inr []"
  by code_simp

lemma quiet_analyze:
  "analyze keyed_config grammar_network quiet_body =
     (Analyzed quiet_result,
      [LanguageToolRequest ''https://api.languagetool.org/v2/check''
         (TextStr ''This are a sentence'')])"
  by (simp add: analyze_def analyze_payload_def quiet_body_def quiet_result_def
      normalize_text_def quiet_grammar_check quiet_phishing_check finalSuspicious_def
      group_by_url_def overall_status_def
      del: phishing_check.simps)

text \<open>
  C2. In every answer that carries a verdict (status 200), the verdict is determined by
  the evidence in the same answer, with this precedence: suspicious if there is a
  suspicious link or a matched phrase; otherwise warning if the grammar field is a
  checked result whose match list has more than 15 entries; otherwise safe. So a grammar
  count of 15 or less never gives more than safe, and link or phrase evidence gives
  suspicious whatever the grammar count is.
\<close>

theorem overall_precedence:
  assumes "analyze cfg net body = (Analyzed r, sent)"
  shows "overall r =
     (if suspiciousLinks r \<noteq> [] \<or> foundPhrases r \<noteq> [] then Suspicious
      else if (\<exists>d ms. grammar r = Some (GrammarResult d) \<and> lt_matches d = Some ms \<and> length ms > 15)
           then Warning
      else Safe)"
proof -
  from assms obtain suspicious where
    s: "suspiciousLinks r = finalSuspicious suspicious"
    and o: "overall r = overall_status suspicious (foundPhrases r) (grammar r)"
    by (rule analyze_Analyzed)
  have g: "longer_than (grammar_matches g) 15 \<longleftrightarrow>
      (\<exists>d ms. g = Some (GrammarResult d) \<and> lt_matches d = Some ms \<and> length ms > 15)" for g
  proof (cases g rule: grammar_matches.cases)
    case (3 d)
    then show ?thesis by (cases "lt_matches d") simp_all
  qed simp_all
  show ?thesis
    unfolding o s overall_status_def g finalSuspicious_Nil_iff by simp
qed

theorem overall_precedence_witness:
  "analyze keyed_config grammar_network quiet_body =
     (Analyzed quiet_result,
      [LanguageToolRequest ''https://api.languagetool.org/v2/check''
         (TextStr ''This are a sentence'')])
   \<and> suspiciousLinks quiet_result = [] \<and> foundPhrases quiet_result = []
   \<and> overall quiet_result = Warning"
  using overall_precedence [OF quiet_analyze] quiet_analyze
  by (simp add: quiet_result_def)

section \<open>One entry per url\<close>

lemma heuristic_loop_set:
  "heuristic_loop links acc = Inr hr \<Longrightarrow>
     set hr = set acc \<union>
       {(url, rs). url \<in> set links \<and> heuristicLinkCheck (Some url) = Inr rs \<and> rs \<noteq> []}"
proof (induction links arbitrary: acc)
  case Nil
  then show ?case by simp
next
  case (Cons url links)
  from Cons.prems obtain reasons where r: "heuristicLinkCheck (Some url) = Inr reasons"
    by (cases "heuristicLinkCheck (Some url)") simp_all
  with Cons.prems have "heuristic_loop links
      (if reasons \<noteq> [] then acc @ [(url, reasons)] else acc) = Inr hr"
    by simp
  from Cons.IH [OF this] r show ?case by auto
qed

lemma link_scanning_Inr:
  assumes "link_scanning cfg net links = (Inr suspicious, sent1)"
  obtains hr where "heuristic_loop links [] = Inr hr"
    and "suspicious = (case fst (googleSafeBrowsingLookup cfg net links) of
            Succeeded ms \<Rightarrow> map threat_finding ms | Failed e \<Rightarrow> []) @ hr"
    and "sent1 = snd (googleSafeBrowsingLookup cfg net links)"
proof -
  from assms obtain hr where hr: "heuristic_loop links [] = Inr hr"
    by (cases "heuristic_loop links []") (simp_all add: link_scanning_def)
  obtain sb sent where sb: "googleSafeBrowsingLookup cfg net links = (sb, sent)"
    by (metis surj_pair)
  from assms hr sb show ?thesis
    by (intro that [of hr]) (cases sb; simp add: link_scanning_def)+
qed

text \<open>
  C1. In every successful answer to a request with link scanning on: if the threat-list
  lookup succeeded with a match whose url is \<open>u\<close>, and \<open>u\<close> is one of the (normalised)
  links and the heuristic scorer gives reasons for it, then the answer has exactly one
  entry for \<open>u\<close>, and its display string is a list of reasons joined by a comma and a
  space in which no reason occurs twice and whose elements are exactly the reasons that
  the matches for \<open>u\<close> and the scorer contributed.
\<close>

theorem same_url_flagged_twice:
  assumes "analyze cfg net body = (Analyzed r, sent)"
    and "get_prop body ''payload'' = Some payload"
    and "option_on (get_prop body ''options'') ''linkScanner''"
    and "googleSafeBrowsingLookup cfg net (normalize_links (get_prop payload ''links'')) =
           (Succeeded ms, sent_sb)"
    and "m \<in> set ms" and "fst (threat_finding m) = u"
    and "u \<in> set (normalize_links (get_prop payload ''links''))"
    and "heuristicLinkCheck (Some u) = Inr hs" and "hs \<noteq> []"
  shows "\<exists>rs. filter (\<lambda>e. fst e = u) (suspiciousLinks r) = [(u, join '', '' rs)]
          \<and> distinct rs
          \<and> set rs = (\<Union>m' \<in> {m' \<in> set ms. fst (threat_finding m') = u}.
                          set (snd (threat_finding m'))) \<union> set hs"
proof -
  let ?links = "normalize_links (get_prop payload ''links'')"
  from assms(1) assms(2) assms(3) obtain suspicious sent1 where
    ls: "link_scanning cfg net ?links = (Inr suspicious, sent1)"
    and fs: "suspiciousLinks r = finalSuspicious suspicious"
    by (auto elim!: analyze_Analyzed)
  from ls obtain hr where hr: "heuristic_loop ?links [] = Inr hr"
    and s: "suspicious = map threat_finding ms @ hr"
    using assms(4) by (auto elim!: link_scanning_Inr)
  have hr_set: "set hr = {(url, rs). url \<in> set ?links \<and>
      heuristicLinkCheck (Some url) = Inr rs \<and> rs \<noteq> []}"
    using heuristic_loop_set [OF hr] by simp
  let ?rs = "new_Set (concat (map snd (filter (\<lambda>s. fst s = u) suspicious)))"
  from assms(5) assms(6) have "(u, snd (threat_finding m)) \<in> set suspicious"
    unfolding s by (auto simp: image_iff intro!: bexI [of _ m])
  then have "filter (\<lambda>e. fst e = u) (suspiciousLinks r) = [(u, join '', '' ?rs)]"
    unfolding fs by (rule finalSuspicious_entry)
  moreover have "distinct ?rs" by (rule distinct_new_Set)
  moreover have "set ?rs = (\<Union>m' \<in> {m' \<in> set ms. fst (threat_finding m') = u}.
                          set (snd (threat_finding m'))) \<union> set hs"
  proof -
    have "{s \<in> set hr. fst s = u} = {(u, hs)}"
      unfolding hr_set using assms(7) assms(8) assms(9) by auto
    then have "(\<Union>s \<in> {s \<in> set hr. fst s = u}. set (snd s)) = set hs" by simp
    moreover have "(\<Union>s \<in> {s \<in> set (map threat_finding ms). fst s = u}. set (snd s)) =
        (\<Union>m' \<in> {m' \<in> set ms. fst (threat_finding m') = u}. set (snd (threat_finding m')))"
      by auto
    moreover have "set ?rs = (\<Union>s \<in> {s \<in> set (map threat_finding ms). fst s = u}. set (snd s))
        \<union> (\<Union>s \<in> {s \<in> set hr. fst s = u}. set (snd s))"
      unfolding set_new_Set s by auto
    ultimately show ?thesis by simp
  qed
  ultimately show ?thesis by blast
qed

lemma flagged_heuristic:
  "heuristicLinkCheck (Some (JStr ''http://bank.example'')) = Inr [contains_reason ''bank'']"
  by code_simp

lemma flagged_lookup:
  "googleSafeBrowsingLookup keyed_config sample_network [JStr ''http://bank.example''] =
     (Succeeded [sample_match], [SafeBrowsingRequest ''k'' [JStr ''http://bank.example'']])"
  by (simp add: googleSafeBrowsingLookup_def keyed_config_def sample_network_def)

lemma sample_threat_finding:
  "threat_finding sample_match =
     (JStr ''http://bank.example'', [''Google Safe Browsing match: MALWARE''])"
  by (simp add: threat_finding_def entryUrl_def sample_match_def)

lemma flagged_link_scanning:
  "link_scanning keyed_config sample_network [JStr ''http://bank.example''] =
     (Inr [(JStr ''http://bank.example'', [''Google Safe Browsing match: MALWARE'']),
           (JStr ''http://bank.example'', [contains_reason ''bank''])],
      [SafeBrowsingRequest ''k'' [JStr ''http://bank.example'']])"
  by (simp add: link_scanning_def flagged_heuristic flagged_lookup sample_threat_finding)

lemma flagged_final:
  "finalSuspicious
     [(JStr ''http://bank.example'', [''Google Safe Browsing match: MALWARE'']),
      (JStr ''http://bank.example'', [contains_reason ''bank''])] =
   [(JStr ''http://bank.example'',
     ''Google Safe Browsing match: MALWARE, contains '' @ [CHR 0x22] @ ''bank'' @ [CHR 0x22])]"
  by code_simp

lemma flagged_phishing: "phishing_check (TextStr ''hello'') = Inr []"
  by code_simp

lemma flagged_analyze:
  "analyze keyed_config sample_network flagged_body =
     (Analyzed flagged_result, [SafeBrowsingRequest ''k'' [JStr ''http://bank.example'']])"
  by (simp add: analyze_def analyze_payload_def flagged_body_def flagged_result_def
      normalize_text_def flagged_link_scanning flagged_final flagged_phishing
      grammar_check_def overall_status_def
      del: phishing_check.simps)

theorem same_url_flagged_twice_witness:
  "analyze keyed_config sample_network flagged_body =
     (Analyzed flagged_result, [SafeBrowsingRequest ''k'' [JStr ''http://bank.example'']])
   \<and> (\<exists>rs. filter (\<lambda>e. fst e = JStr ''http://bank.example'') (suspiciousLinks flagged_result) =
             [(JStr ''http://bank.example'', join '', '' rs)]
          \<and> distinct rs
          \<and> set rs = {''Google Safe Browsing match: MALWARE'', contains_reason ''bank''})"
  using same_url_flagged_twice [of keyed_config sample_network flagged_body flagged_result
      "[SafeBrowsingRequest ''k'' [JStr ''http://bank.example'']]"
      "JObj [(''text'', JStr ''hello''), (''links'', JArr [JStr ''http://bank.example''])]"
      "[sample_match]" "[SafeBrowsingRequest ''k'' [JStr ''http://bank.example'']]"
      sample_match "JStr ''http://bank.example''" "[contains_reason ''bank'']"]
    flagged_analyze
  by (simp add: flagged_body_def flagged_lookup flagged_heuristic sample_threat_finding
      insert_commute)

section \<open>When the grammar check runs\<close>

lemma lookup_sent:
  "q \<in> set (snd (googleSafeBrowsingLookup cfg net urls)) \<Longrightarrow>
     q = SafeBrowsingRequest (GOOGLE_KEY cfg) urls"
  by (auto simp: googleSafeBrowsingLookup_def split: if_splits outcome.splits)

lemma link_scanning_sent:
  "q \<in> set (snd (link_scanning cfg net links)) \<Longrightarrow>
     q = SafeBrowsingRequest (GOOGLE_KEY cfg) links"
proof (cases "heuristic_loop links []")
  case (Inl e)
  then show "q \<in> set (snd (link_scanning cfg net links)) \<Longrightarrow> ?thesis"
    by (simp add: link_scanning_def)
next
  case (Inr hr)
  obtain sb sent where sb: "googleSafeBrowsingLookup cfg net links = (sb, sent)"
    by (metis surj_pair)
  assume "q \<in> set (snd (link_scanning cfg net links))"
  with Inr sb have "q \<in> set sent"
    by (cases sb) (simp_all add: link_scanning_def)
  with sb show ?thesis using lookup_sent [of q cfg net links] by simp
qed

lemma text_long_truthy: "10 \<le> text_length tx \<Longrightarrow> text_truthy tx"
  by (cases tx) auto

lemma grammar_check_sent:
  "snd (grammar_check cfg net options tx) =
     (if option_on options ''grammarChecker'' \<and> 10 \<le> text_length tx
      then [LanguageToolRequest (LT_URL cfg) tx] else [])"
  by (auto simp: grammar_check_def languageToolCheck_def text_long_truthy
      split: outcome.splits)









section \<open>Failures of the external calls\<close>

lemma link_scanning_throws:
  "(\<exists>e. fst (link_scanning cfg net links) = Inl e) \<longleftrightarrow> (\<exists>e. heuristic_loop links [] = Inl e)"
proof (cases "heuristic_loop links []")
  case (Inl e)
  then show ?thesis by (simp add: link_scanning_def)
next
  case (Inr hr)
  obtain sb sent where sb: "googleSafeBrowsingLookup cfg net links = (sb, sent)"
    by (metis surj_pair)
  with Inr show ?thesis by (cases sb) (simp_all add: link_scanning_def)
qed

text \<open>The status of the answer, computed without the network.\<close>

lemma analyze_status:
  "status (fst (analyze cfg net body)) =
     (case get_prop body ''payload'' of
        None \<Rightarrow> 400
      | Some payload \<Rightarrow>
          if \<not> truthy payload then 400
          else (case normalize_text (get_prop payload ''text'') of
                  Inl e \<Rightarrow> 500
                | Inr tx \<Rightarrow>
                    if option_on (get_prop body ''options'') ''linkScanner'' \<and>
                       (\<exists>e. heuristic_loop (normalize_links (get_prop payload ''links'')) [] = Inl e)
                    then 500
                    else (case phishing_check tx of Inl e \<Rightarrow> 500 | Inr found \<Rightarrow> 200)))"
proof (cases "get_prop body ''payload''")
  case None
  then show ?thesis by (simp add: analyze_def)
next
  case (Some payload)
  show ?thesis
  proof (cases "truthy payload")
    case False
    with Some show ?thesis by (simp add: analyze_def)
  next
    case True
    show ?thesis
    proof (cases "normalize_text (get_prop payload ''text'')")
      case (Inl e)
      with Some True show ?thesis by (simp add: analyze_def analyze_payload_def)
    next
      case (Inr tx)
      let ?stage = "if option_on (get_prop body ''options'') ''linkScanner''
          then link_scanning cfg net (normalize_links (get_prop payload ''links''))
          else (Inr [], [])"
      obtain ls sent1 where l: "?stage = (ls, sent1)" by (metis surj_pair)
      obtain g sent2 where g: "grammar_check cfg net (get_prop body ''options'') tx = (g, sent2)"
        by (metis surj_pair)
      have thr: "(\<exists>e. ls = Inl e) \<longleftrightarrow>
          option_on (get_prop body ''options'') ''linkScanner'' \<and>
          (\<exists>e. heuristic_loop (normalize_links (get_prop payload ''links'')) [] = Inl e)"
        using l link_scanning_throws [of cfg net "normalize_links (get_prop payload ''links'')"]
        by (auto split: if_splits)
      show ?thesis
      proof (cases ls)
        case (Inl e)
        with thr Some True Inr l show ?thesis
          by (simp add: analyze_def analyze_payload_def)
      next
        case (Inr suspicious)
        with thr have "\<not> (option_on (get_prop body ''options'') ''linkScanner'' \<and>
          (\<exists>e. heuristic_loop (normalize_links (get_prop payload ''links'')) [] = Inl e))"
          by auto
        with Some True \<open>normalize_text (get_prop payload ''text'') = Inr tx\<close> l g Inr
        show ?thesis
          by (cases "phishing_check tx") (simp_all add: analyze_def analyze_payload_def)
      qed
    qed
  qed
qed

text \<open>
  C5. A rejected call never leaves its wrapper as an exception: when the grammar
  service rejects, with or without a response, \<open>languageToolCheck\<close> returns the failed
  result carrying the error payload, and so does \<open>googleSafeBrowsingLookup\<close> when a key
  is configured and the threat-list service rejects. The aggregator then works on data:
  after a failed lookup the link evidence is that of the heuristic loop alone, and after
  a failed grammar call the grammar field is the error marker (or null when the check
  was not due). The status of the answer is the same whatever the network does (its
  answers having the shape of the services' contracts), so no failure of an external
  call turns into a server error.
\<close>

theorem external_failures_absorbed:
  "(languagetool_post net (LT_URL cfg) tx = Rejected f \<longrightarrow>
      languageToolCheck cfg net tx =
        (Failed (error_payload f), [LanguageToolRequest (LT_URL cfg) tx]))
   \<and> (GOOGLE_KEY cfg \<noteq> [] \<and> safebrowsing_post net (GOOGLE_KEY cfg) urls = Rejected f \<longrightarrow>
      googleSafeBrowsingLookup cfg net urls =
        (Failed (error_payload f), [SafeBrowsingRequest (GOOGLE_KEY cfg) urls]))
   \<and> (fst (googleSafeBrowsingLookup cfg net urls) = Failed e \<longrightarrow>
      fst (link_scanning cfg net urls) = heuristic_loop urls [])
   \<and> (fst (languageToolCheck cfg net tx) = Failed e \<longrightarrow>
      fst (grammar_check cfg net options tx) = None \<or>
      fst (grammar_check cfg net options tx) =
        Some (GrammarError (if truthy e then e else JStr ''LanguageTool error'')))
   \<and> status (fst (analyze cfg net body)) = status (fst (analyze cfg net' body))"
proof -
  have "fst (googleSafeBrowsingLookup cfg net urls) = Failed e \<Longrightarrow>
      fst (link_scanning cfg net urls) = heuristic_loop urls []"
    by (cases "heuristic_loop urls []"; cases "googleSafeBrowsingLookup cfg net urls")
       (simp_all add: link_scanning_def)
  moreover have "fst (languageToolCheck cfg net tx) = Failed e \<Longrightarrow>
      fst (grammar_check cfg net options tx) = None \<or>
      fst (grammar_check cfg net options tx) =
        Some (GrammarError (if truthy e then e else JStr ''LanguageTool error''))"
    by (cases "languageToolCheck cfg net tx") (simp add: grammar_check_def)
  moreover have "status (fst (analyze cfg net body)) = status (fst (analyze cfg net' body))"
    unfolding analyze_status ..
  ultimately show ?thesis
    by (simp add: languageToolCheck_def googleSafeBrowsingLookup_def)
qed

lemma offline_heuristic_loop:
  "heuristic_loop [JStr ''http://bank.example''] [] =
     Inr [(JStr ''http://bank.example'', [contains_reason ''bank''])]"
  by (simp add: flagged_heuristic)

theorem external_failures_absorbed_witness:
  "languageToolCheck keyed_config offline_network (TextStr ''1234567890'') =
     (Failed (JStr ''timeout of 20000ms exceeded''),
      [LanguageToolRequest (LT_URL keyed_config) (TextStr ''1234567890'')])
   \<and> googleSafeBrowsingLookup keyed_config offline_network [JStr ''http://bank.example''] =
     (Failed (JObj [(''error'', JStr ''forbidden'')]),
      [SafeBrowsingRequest (GOOGLE_KEY keyed_config) [JStr ''http://bank.example'']])
   \<and> fst (link_scanning keyed_config offline_network [JStr ''http://bank.example'']) =
     Inr [(JStr ''http://bank.example'', [contains_reason ''bank''])]
   \<and> status (fst (analyze keyed_config offline_network flagged_body)) = 200"
  using external_failures_absorbed [of offline_network keyed_config "TextStr ''1234567890''"
      "TransportFailure ''timeout of 20000ms exceeded''" "[JStr ''http://bank.example'']"
      "JObj [(''error'', JStr ''forbidden'')]" None flagged_body sample_network]
    external_failures_absorbed [of offline_network keyed_config "TextStr ''1234567890''"
      "HttpFailure (JObj [(''error'', JStr ''forbidden'')])" "[JStr ''http://bank.example'']"
      "JObj [(''error'', JStr ''forbidden'')]" None flagged_body sample_network]
    flagged_analyze offline_heuristic_loop
  by (simp add: offline_network_def keyed_config_def)

section \<open>Truncation\<close>

lemma normalize_text_string:
  "normalize_text (Some (JStr s)) = Inr (TextStr (take 30000 s))"
  by (simp add: normalize_text_def)

lemma analyze_payload_cong:
  assumes "normalize_links (get_prop p ''links'') = normalize_links (get_prop p' ''links'')"
    and "normalize_text (get_prop p ''text'') = normalize_text (get_prop p' ''text'')"
    and "get_prop p ''subject'' = get_prop p' ''subject''"
    and "get_prop p ''snippet'' = get_prop p' ''snippet''"
  shows "analyze_payload cfg net p options = analyze_payload cfg net p' options"
  unfolding analyze_payload_def assms ..

lemma map_of_map_value:
  "map_of (map (\<lambda>(k, v). (k, f k v)) kvs) k = map_option (f k) (map_of kvs k)"
  by (induction kvs) auto

lemma get_prop_truncate_request:
  "get_prop (truncate_request body) k =
     (if k = ''payload'' then map_option truncate_payload (get_prop body k) else get_prop body k)"
proof (cases body)
  case (JObj kvs)
  show ?thesis
    unfolding JObj truncate_request.simps get_prop.simps
    using map_of_map_value [of "\<lambda>k v. if k = ''payload'' then truncate_payload v else v" kvs k]
    by (simp add: option.map_ident)
qed simp_all

lemma map_of_truncate_property:
  "map_of (map truncate_property kvs) k =
     map_option (\<lambda>v. if k = ''links'' then truncate_links v
                      else if k = ''text'' then truncate_text v else v) (map_of kvs k)"
  by (induction kvs) auto

lemma get_prop_truncate_payload:
  "get_prop (truncate_payload p) k =
     map_option (\<lambda>v. if k = ''links'' then truncate_links v
                      else if k = ''text'' then truncate_text v else v) (get_prop p k)"
  by (cases p) (simp_all add: map_of_truncate_property)

lemma truthy_truncate_payload: "truthy (truncate_payload p) = truthy p"
  by (cases p) simp_all

lemma normalize_links_truncate:
  "normalize_links (map_option truncate_links v) = normalize_links v"
  by (cases v rule: normalize_links.cases) simp_all

lemma normalize_text_truncate:
  "normalize_text (map_option truncate_text v) = normalize_text v"
proof (cases v)
  case None
  then show ?thesis by simp
next
  case (Some j)
  then show ?thesis by (cases j) (simp_all add: normalize_text_def)
qed

lemma analyze_truncate_request: "analyze cfg net (truncate_request body) = analyze cfg net body"
proof (cases "get_prop body ''payload''")
  case None
  then show ?thesis by (simp add: analyze_def get_prop_truncate_request)
next
  case (Some p)
  have "analyze_payload cfg net (truncate_payload p) (get_prop body ''options'') =
        analyze_payload cfg net p (get_prop body ''options'')"
    by (rule analyze_payload_cong)
       (simp_all add: get_prop_truncate_payload normalize_links_truncate normalize_text_truncate
          option.map_ident)
  with Some show ?thesis
    by (simp add: analyze_def get_prop_truncate_request truthy_truncate_payload)
qed

lemma text_length_normalize:
  "normalize_text v = Inr tx \<Longrightarrow> text_length tx \<le> 30000"
  unfolding normalize_text_def
  by (cases "or_else v (JStr [])") auto

lemma length_normalize_links: "length (normalize_links v) \<le> 50"
  by (cases v rule: normalize_links.cases) simp_all

lemma analyze_sent:
  assumes "q \<in> set (snd (analyze cfg net body))"
  obtains payload where "get_prop body ''payload'' = Some payload"
    and "q = SafeBrowsingRequest (GOOGLE_KEY cfg) (normalize_links (get_prop payload ''links''))
         \<or> (\<exists>tx. normalize_text (get_prop payload ''text'') = Inr tx \<and>
                  q = LanguageToolRequest (LT_URL cfg) tx)"
proof -
  from assms obtain payload where p: "get_prop body ''payload'' = Some payload" "truthy payload"
    and q: "q \<in> set (snd (analyze_payload cfg net payload (get_prop body ''options'')))"
    by (auto simp: analyze_def split: option.splits if_splits)
  from q obtain tx where t: "normalize_text (get_prop payload ''text'') = Inr tx"
    by (cases "normalize_text (get_prop payload ''text'')")
       (simp_all add: analyze_payload_def)
  let ?links = "normalize_links (get_prop payload ''links'')"
  let ?stage = "if option_on (get_prop body ''options'') ''linkScanner''
      then link_scanning cfg net ?links else (Inr [], [])"
  obtain ls sent1 where l: "?stage = (ls, sent1)" by (metis surj_pair)
  have sent1: "x \<in> set sent1 \<Longrightarrow> x = SafeBrowsingRequest (GOOGLE_KEY cfg) ?links" for x
    using l link_scanning_sent [of x cfg net ?links] by (auto split: if_splits)
  obtain g sent2 where g: "grammar_check cfg net (get_prop body ''options'') tx = (g, sent2)"
    by (metis surj_pair)
  have sent2: "x \<in> set sent2 \<Longrightarrow> x = LanguageToolRequest (LT_URL cfg) tx" for x
    using g grammar_check_sent [of cfg net "get_prop body ''options''" tx]
    by (auto split: if_splits)
  have "q \<in> set sent1 \<union> set sent2"
  proof (cases ls)
    case (Inl e)
    with q t l show ?thesis by (simp add: analyze_payload_def)
  next
    case (Inr suspicious)
    with q t l g show ?thesis
      by (cases "phishing_check tx") (simp_all add: analyze_payload_def)
  qed
  with sent1 sent2 t have "q = SafeBrowsingRequest (GOOGLE_KEY cfg) ?links
         \<or> (\<exists>tx. normalize_text (get_prop payload ''text'') = Inr tx \<and>
                  q = LanguageToolRequest (LT_URL cfg) tx)"
    by blast
  with p(1) show ?thesis by (rule that)
qed

lemma str_includes_set: "str_includes s p \<Longrightarrow> set p \<subseteq> set s"
  by (simp add: str_includes_sublist set_mono_sublist)

lemma heuristic_loop_replicate:
  "heuristicLinkCheck (Some u) = Inr [] \<Longrightarrow> heuristic_loop (replicate n u) acc = Inr acc"
  by (induction n) simp_all

lemma link_scanning_ok:
  assumes "heuristic_loop links [] = Inr hr"
  shows "link_scanning cfg net links =
     (Inr ((case fst (googleSafeBrowsingLookup cfg net links) of
              Succeeded ms \<Rightarrow> map threat_finding ms | Failed e \<Rightarrow> []) @ hr),
      snd (googleSafeBrowsingLookup cfg net links))"
proof -
  obtain sb sent where sb: "googleSafeBrowsingLookup cfg net links = (sb, sent)"
    by (metis surj_pair)
  with assms show ?thesis by (cases sb) (simp_all add: link_scanning_def)
qed

lemma analyze_truncated_values:
  assumes "get_prop body ''payload'' = Some payload"
    and "get_prop payload ''links'' = Some (JArr xs)"
    and "get_prop payload ''text'' = Some (JStr s)"
    and "heuristic_loop (take 50 xs) [] = Inr hr"
  shows "\<exists>r. analyze cfg net body =
           (Analyzed r,
            (if option_on (get_prop body ''options'') ''linkScanner''
             then snd (googleSafeBrowsingLookup cfg net (take 50 xs)) else []) @
            (if option_on (get_prop body ''options'') ''grammarChecker'' \<and>
                10 \<le> min (length s) 30000
             then [LanguageToolRequest (LT_URL cfg) (TextStr (take 30000 s))] else []))
         \<and> textLength r = min (length s) 30000
         \<and> snippet r = or_else (get_prop payload ''snippet'') (JStr (take 200 s))
         \<and> foundPhrases r = filter (str_includes (toLowerCase (take 30000 s))) phishingPhrases
         \<and> suspiciousLinks r = finalSuspicious
              (if option_on (get_prop body ''options'') ''linkScanner''
               then (case fst (googleSafeBrowsingLookup cfg net (take 50 xs)) of
                       Succeeded ms \<Rightarrow> map threat_finding ms | Failed e \<Rightarrow> []) @ hr
               else [])
         \<and> grammar r =
              fst (grammar_check cfg net (get_prop body ''options'') (TextStr (take 30000 s)))"
proof -
  from assms(2) obtain kvs where "payload = JObj kvs" by (cases payload) simp_all
  then have t: "truthy payload" by simp
  let ?tx = "TextStr (take 30000 s)"
  have tx: "normalize_text (get_prop payload ''text'') = Inr ?tx"
    by (simp add: assms(3) normalize_text_string)
  have links: "normalize_links (get_prop payload ''links'') = take 50 xs"
    by (simp add: assms(2))
  obtain g sent2 where g: "grammar_check cfg net (get_prop body ''options'') ?tx = (g, sent2)"
    by (metis surj_pair)
  have sent2: "sent2 =
      (if option_on (get_prop body ''options'') ''grammarChecker'' \<and> 10 \<le> min (length s) 30000
       then [LanguageToolRequest (LT_URL cfg) ?tx] else [])"
    using grammar_check_sent [of cfg net "get_prop body ''options''" ?tx] g by simp
  have take200: "take 200 (take 30000 s) = take 200 s"
    by (simp add: min_def)
  show ?thesis
  proof (cases "option_on (get_prop body ''options'') ''linkScanner''")
    case True
    with assms(1) t tx links g sent2 take200 link_scanning_ok [OF assms(4), of cfg net]
    show ?thesis
      by (simp add: analyze_def analyze_payload_def Let_def)
  next
    case False
    with assms(1) t tx links g sent2 take200 show ?thesis
      by (simp add: analyze_def analyze_payload_def Let_def)
  qed
qed

text \<open>
  C8. Every request gets the same answer, and causes the same requests to the external
  services, as the request truncated to its first 50 links and the first 30000
  characters of its text. The normalised links of an array are its first 50 entries and
  the normalised text of a string is its first 30000 characters. Every threat-list
  request carries at most 50 urls, every grammar request a text of length at most 30000,
  and the echoed text length is at most 30000.

  For a request with a links array \<open>xs\<close> and a text string \<open>s\<close>, none of whose first 50
  links makes the scorer throw, the handler answers 200 and everything in the answer is
  computed from \<open>take 50 xs\<close> and \<open>take 30000 s\<close>: the threat-list lookup is the lookup
  of \<open>take 50 xs\<close>, the heuristic findings are those of \<open>take 50 xs\<close>, the grammar
  request (sent when the truncated length is at least 10) carries \<open>take 30000 s\<close>, the
  phrases are those found in \<open>take 30000 s\<close>, and the echoed text length is the length of
  \<open>take 30000 s\<close>.
\<close>

theorem truncation_before_checks:
  "analyze cfg net body = analyze cfg net (truncate_request body)
   \<and> normalize_links (Some (JArr xs)) = take 50 xs
   \<and> normalize_text (Some (JStr s)) = Inr (TextStr (take 30000 s))
   \<and> (\<forall>key urls. SafeBrowsingRequest key urls \<in> set (snd (analyze cfg net body))
          \<longrightarrow> length urls \<le> 50)
   \<and> (\<forall>url tx. LanguageToolRequest url tx \<in> set (snd (analyze cfg net body))
          \<longrightarrow> text_length tx \<le> 30000)
   \<and> (\<forall>r. fst (analyze cfg net body) = Analyzed r \<longrightarrow> textLength r \<le> 30000)
   \<and> (\<forall>payload r. get_prop body ''payload'' = Some payload \<and>
          get_prop payload ''text'' = Some (JStr s) \<and>
          fst (analyze cfg net body) = Analyzed r
          \<longrightarrow> textLength r = min (length s) 30000)
   \<and> (\<forall>payload hr.
          get_prop body ''payload'' = Some payload \<and>
          get_prop payload ''links'' = Some (JArr xs) \<and>
          get_prop payload ''text'' = Some (JStr s) \<and>
          heuristic_loop (take 50 xs) [] = Inr hr
          \<longrightarrow>
          (\<exists>r. analyze cfg net body =
               (Analyzed r,
                (if option_on (get_prop body ''options'') ''linkScanner''
                 then snd (googleSafeBrowsingLookup cfg net (take 50 xs)) else []) @
                (if option_on (get_prop body ''options'') ''grammarChecker'' \<and>
                    10 \<le> min (length s) 30000
                 then [LanguageToolRequest (LT_URL cfg) (TextStr (take 30000 s))] else []))
             \<and> textLength r = min (length s) 30000
             \<and> snippet r = or_else (get_prop payload ''snippet'') (JStr (take 200 s))
             \<and> foundPhrases r =
                  filter (str_includes (toLowerCase (take 30000 s))) phishingPhrases
             \<and> suspiciousLinks r = finalSuspicious
                  (if option_on (get_prop body ''options'') ''linkScanner''
                   then (case fst (googleSafeBrowsingLookup cfg net (take 50 xs)) of
                           Succeeded ms \<Rightarrow> map threat_finding ms | Failed e \<Rightarrow> []) @ hr
                   else [])
             \<and> grammar r =
                  fst (grammar_check cfg net (get_prop body ''options'')
                         (TextStr (take 30000 s)))))"
proof -
  have sb: "length urls \<le> 50"
    if "SafeBrowsingRequest key urls \<in> set (snd (analyze cfg net body))" for key urls
    using that by (auto elim!: analyze_sent simp: length_normalize_links)
  have lt: "text_length tx \<le> 30000"
    if "LanguageToolRequest url tx \<in> set (snd (analyze cfg net body))" for url tx
    using that by (auto elim!: analyze_sent dest: text_length_normalize)
  have len: "textLength r \<le> 30000" if "fst (analyze cfg net body) = Analyzed r" for r
  proof -
    from that obtain sent where "analyze cfg net body = (Analyzed r, sent)"
      by (cases "analyze cfg net body") simp
    then show ?thesis
      by (auto elim!: analyze_Analyzed dest: text_length_normalize)
  qed
  have exact: "textLength r = min (length s) 30000"
    if "get_prop body ''payload'' = Some payload" and "get_prop payload ''text'' = Some (JStr s)"
      and "fst (analyze cfg net body) = Analyzed r" for payload r
  proof -
    from that(3) obtain sent where "analyze cfg net body = (Analyzed r, sent)"
      by (cases "analyze cfg net body") simp
    then show ?thesis
      using that(1) that(2) by (auto elim!: analyze_Analyzed simp: normalize_text_string)
  qed
  note full = analyze_truncated_values [of body _ xs s _ cfg net]
  have "analyze cfg net body = analyze cfg net (truncate_request body)"
    by (simp add: analyze_truncate_request)
  moreover have "normalize_links (Some (JArr xs)) = take 50 xs" by simp
  moreover note normalize_text_string [of s]
  ultimately show ?thesis using sb lt len exact full by blast
qed

lemma plain_link: "heuristicLinkCheck (Some (JStr ''http://a.example'')) = Inr []"
  by code_simp

lemma no_phrase_in_a:
  "filter (str_includes (toLowerCase (replicate n CHR ''a''))) phishingPhrases = []"
proof -
  have low: "toLowerCase (replicate n CHR ''a'') = replicate n CHR ''a''"
    by (simp add: toLowerCase_def lower_char_def)
  have "\<not> str_includes (replicate n CHR ''a'') p" if "p \<in> set phishingPhrases" for p
  proof
    assume "str_includes (replicate n CHR ''a'') p"
    then have "set p \<subseteq> {CHR ''a''}"
      using str_includes_set [of "replicate n CHR ''a''" p] by (auto split: if_splits)
    with that show False by (auto simp: phishingPhrases_def)
  qed
  then show ?thesis unfolding low by (simp add: filter_empty_conv)
qed

theorem truncation_before_checks_witness:
  "truncate_request big_body = cut_body
   \<and> analyze keyed_config sample_network big_body = analyze keyed_config sample_network cut_body
   \<and> (\<exists>r. analyze keyed_config sample_network big_body =
          (Analyzed r,
           [SafeBrowsingRequest ''k'' (replicate 50 (JStr ''http://a.example'')),
            LanguageToolRequest ''https://api.languagetool.org/v2/check''
              (TextStr (replicate 30000 CHR ''a''))])
        \<and> textLength r = 30000
        \<and> snippet r = JStr (replicate 200 CHR ''a'')
        \<and> foundPhrases r = []
        \<and> suspiciousLinks r =
             [(JStr ''http://bank.example'', ''Google Safe Browsing match: MALWARE'')]
        \<and> grammar r = Some (GrammarError (JStr ''timeout of 20000ms exceeded'')))"
proof -
  let ?payload = "JObj [(''text'', JStr (replicate 40000 CHR ''a'')),
                        (''links'', JArr (replicate 60 (JStr ''http://a.example'')))]"
  let ?tx = "TextStr (replicate 30000 CHR ''a'')"
  note inst = truncation_before_checks [of keyed_config sample_network big_body
      "replicate 60 (JStr ''http://a.example'')" "replicate 40000 CHR ''a''"]
  have cut: "truncate_request big_body = cut_body"
    by (simp add: big_body_def cut_body_def)
  have p: "get_prop big_body ''payload'' = Some ?payload"
    by (simp add: big_body_def)
  have l: "get_prop ?payload ''links'' = Some (JArr (replicate 60 (JStr ''http://a.example'')))"
    and t: "get_prop ?payload ''text'' = Some (JStr (replicate 40000 CHR ''a''))"
    and sn: "get_prop ?payload ''snippet'' = None"
    by simp_all
  have h: "heuristic_loop (take 50 (replicate 60 (JStr ''http://a.example''))) [] = Inr []"
    by (simp add: heuristic_loop_replicate plain_link)
  have opts: "option_on (get_prop big_body ''options'') ''linkScanner''"
    "option_on (get_prop big_body ''options'') ''grammarChecker''"
    by (simp_all add: big_body_def)
  have look: "googleSafeBrowsingLookup keyed_config sample_network
        (replicate 50 (JStr ''http://a.example'')) =
      (Succeeded [sample_match],
       [SafeBrowsingRequest ''k'' (replicate 50 (JStr ''http://a.example''))])"
    by (simp add: googleSafeBrowsingLookup_def keyed_config_def sample_network_def)
  have address: "LT_URL keyed_config = ''https://api.languagetool.org/v2/check''"
    by (simp add: keyed_config_def)
  have gram: "fst (grammar_check keyed_config sample_network (get_prop big_body ''options'')
        (TextStr (take 30000 (replicate 40000 CHR ''a'')))) =
      Some (GrammarError (JStr ''timeout of 20000ms exceeded''))"
    using opts(2)
    by (simp add: grammar_check_def languageToolCheck_def sample_network_def)
  have fin: "finalSuspicious [threat_finding sample_match] =
      [(JStr ''http://bank.example'', ''Google Safe Browsing match: MALWARE'')]"
    by (simp add: sample_threat_finding finalSuspicious_def group_by_url_def
        map_get_or_empty_def new_Set_def set_add_def)
  from inst p l t h have "\<exists>r. analyze keyed_config sample_network big_body =
               (Analyzed r,
                (if option_on (get_prop big_body ''options'') ''linkScanner''
                 then snd (googleSafeBrowsingLookup keyed_config sample_network
                        (take 50 (replicate 60 (JStr ''http://a.example'')))) else []) @
                (if option_on (get_prop big_body ''options'') ''grammarChecker'' \<and>
                    10 \<le> min (length (replicate 40000 CHR ''a'')) 30000
                 then [LanguageToolRequest (LT_URL keyed_config)
                         (TextStr (take 30000 (replicate 40000 CHR ''a'')))] else []))
             \<and> textLength r = min (length (replicate 40000 CHR ''a'')) 30000
             \<and> snippet r = or_else (get_prop ?payload ''snippet'')
                  (JStr (take 200 (replicate 40000 CHR ''a'')))
             \<and> foundPhrases r =
                  filter (str_includes (toLowerCase (take 30000 (replicate 40000 CHR ''a''))))
                    phishingPhrases
             \<and> suspiciousLinks r = finalSuspicious
                  (if option_on (get_prop big_body ''options'') ''linkScanner''
                   then (case fst (googleSafeBrowsingLookup keyed_config sample_network
                            (take 50 (replicate 60 (JStr ''http://a.example'')))) of
                           Succeeded ms \<Rightarrow> map threat_finding ms | Failed e \<Rightarrow> []) @ []
                   else [])
             \<and> grammar r =
                  fst (grammar_check keyed_config sample_network (get_prop big_body ''options'')
                         (TextStr (take 30000 (replicate 40000 CHR ''a''))))"
    by blast
  then obtain r where
    a: "analyze keyed_config sample_network big_body =
               (Analyzed r,
                (if option_on (get_prop big_body ''options'') ''linkScanner''
                 then snd (googleSafeBrowsingLookup keyed_config sample_network
                        (take 50 (replicate 60 (JStr ''http://a.example'')))) else []) @
                (if option_on (get_prop big_body ''options'') ''grammarChecker'' \<and>
                    10 \<le> min (length (replicate 40000 CHR ''a'')) 30000
                 then [LanguageToolRequest (LT_URL keyed_config)
                         (TextStr (take 30000 (replicate 40000 CHR ''a'')))] else []))"
    and b: "textLength r = min (length (replicate 40000 CHR ''a'')) 30000"
    and c: "snippet r = or_else (get_prop ?payload ''snippet'')
                  (JStr (take 200 (replicate 40000 CHR ''a'')))"
    and d: "foundPhrases r =
                  filter (str_includes (toLowerCase (take 30000 (replicate 40000 CHR ''a''))))
                    phishingPhrases"
    and e: "suspiciousLinks r = finalSuspicious
                  (if option_on (get_prop big_body ''options'') ''linkScanner''
                   then (case fst (googleSafeBrowsingLookup keyed_config sample_network
                            (take 50 (replicate 60 (JStr ''http://a.example'')))) of
                           Succeeded ms \<Rightarrow> map threat_finding ms | Failed e \<Rightarrow> []) @ []
                   else [])"
    and f: "grammar r =
                  fst (grammar_check keyed_config sample_network (get_prop big_body ''options'')
                         (TextStr (take 30000 (replicate 40000 CHR ''a''))))"
    by blast
  have a': "analyze keyed_config sample_network big_body =
          (Analyzed r,
           [SafeBrowsingRequest ''k'' (replicate 50 (JStr ''http://a.example'')),
            LanguageToolRequest ''https://api.languagetool.org/v2/check''
              (TextStr (replicate 30000 CHR ''a''))])"
    unfolding a using opts by (simp add: look address)
  have b': "textLength r = 30000" unfolding b by simp
  have c': "snippet r = JStr (replicate 200 CHR ''a'')" unfolding c by simp
  have d': "foundPhrases r = []" unfolding d by (simp add: no_phrase_in_a)
  have e': "suspiciousLinks r =
      [(JStr ''http://bank.example'', ''Google Safe Browsing match: MALWARE'')]"
    unfolding e using opts(1) by (simp add: look fin)
  have f': "grammar r = Some (GrammarError (JStr ''timeout of 20000ms exceeded''))"
    unfolding f by (rule gram)
  from inst cut have "analyze keyed_config sample_network big_body =
      analyze keyed_config sample_network cut_body"
    by simp
  with cut a' b' c' d' e' f' show ?thesis by blast
qed

section \<open>A links field that is not an array\<close>

text \<open>
  C10. When the payload is there and its links field is missing or not an array, the
  normalised links are empty, and the answer and the requests sent are those of the same
  request with an empty links array. The handler answers 200 exactly when the text is a
  string (or missing, or falsy), and 500 otherwise: the links field never causes a
  failure, a text that is a number, an object, true or an array still does. In a 200
  answer the only link evidence is what the threat list returns for the empty url list,
  none of it derived from the links field, and every threat-list request carries the
  empty list.
\<close>

theorem links_not_an_array:
  assumes "get_prop body ''payload'' = Some payload" and "truthy payload"
    and "\<forall>xs. get_prop payload ''links'' \<noteq> Some (JArr xs)"
  shows "normalize_links (get_prop payload ''links'') = []
         \<and> (\<forall>body' payload'.
               get_prop body' ''payload'' = Some payload' \<and>
               get_prop body' ''options'' = get_prop body ''options'' \<and>
               get_prop payload' ''links'' = Some (JArr []) \<and>
               get_prop payload' ''text'' = get_prop payload ''text'' \<and>
               get_prop payload' ''subject'' = get_prop payload ''subject'' \<and>
               get_prop payload' ''snippet'' = get_prop payload ''snippet''
               \<longrightarrow> analyze cfg net body = analyze cfg net body')
         \<and> (status (fst (analyze cfg net body)) = 200 \<longleftrightarrow>
              (\<exists>s. normalize_text (get_prop payload ''text'') = Inr (TextStr s)))
         \<and> (status (fst (analyze cfg net body)) = 500 \<longleftrightarrow>
              \<not> (\<exists>s. normalize_text (get_prop payload ''text'') = Inr (TextStr s)))
         \<and> (\<forall>r sent. analyze cfg net body = (Analyzed r, sent) \<longrightarrow>
               suspiciousLinks r = finalSuspicious
                    (if option_on (get_prop body ''options'') ''linkScanner''
                     then (case fst (googleSafeBrowsingLookup cfg net []) of
                             Succeeded ms \<Rightarrow> map threat_finding ms | Failed e \<Rightarrow> [])
                     else [])
               \<and> (\<forall>key urls. SafeBrowsingRequest key urls \<in> set sent \<longrightarrow> urls = []))"
proof -
  from assms(3) have links: "normalize_links (get_prop payload ''links'') = []"
    by (cases "get_prop payload ''links''" rule: normalize_links.cases) simp_all
  have same: "analyze cfg net body = analyze cfg net body'"
    if b: "get_prop body' ''payload'' = Some payload' \<and>
           get_prop body' ''options'' = get_prop body ''options'' \<and>
           get_prop payload' ''links'' = Some (JArr []) \<and>
           get_prop payload' ''text'' = get_prop payload ''text'' \<and>
           get_prop payload' ''subject'' = get_prop payload ''subject'' \<and>
           get_prop payload' ''snippet'' = get_prop payload ''snippet''"
    for body' payload'
  proof -
    from b obtain kvs where "payload' = JObj kvs" by (cases payload') simp_all
    then have t: "truthy payload'" by simp
    have "analyze_payload cfg net payload (get_prop body ''options'') =
          analyze_payload cfg net payload' (get_prop body ''options'')"
      by (rule analyze_payload_cong) (simp_all add: b links)
    with assms(1) assms(2) b t show ?thesis by (simp add: analyze_def)
  qed
  have st: "status (fst (analyze cfg net body)) =
      (case normalize_text (get_prop payload ''text'') of
         Inl e \<Rightarrow> 500
       | Inr tx \<Rightarrow> (case phishing_check tx of Inl e \<Rightarrow> 500 | Inr found \<Rightarrow> 200))"
    unfolding analyze_status using assms(1) assms(2) by (simp add: links split: sum.splits)
  have ok: "status (fst (analyze cfg net body)) = 200 \<longleftrightarrow>
      (\<exists>s. normalize_text (get_prop payload ''text'') = Inr (TextStr s))"
  proof (cases "normalize_text (get_prop payload ''text'')")
    case (Inl e)
    with st show ?thesis by simp
  next
    case (Inr tx)
    with st show ?thesis by (cases tx) simp_all
  qed
  have bad: "status (fst (analyze cfg net body)) = 500 \<longleftrightarrow>
      \<not> (\<exists>s. normalize_text (get_prop payload ''text'') = Inr (TextStr s))"
  proof (cases "normalize_text (get_prop payload ''text'')")
    case (Inl e)
    with st show ?thesis by simp
  next
    case (Inr tx)
    with st show ?thesis by (cases tx) simp_all
  qed
  have ev: "suspiciousLinks r = finalSuspicious
                    (if option_on (get_prop body ''options'') ''linkScanner''
                     then (case fst (googleSafeBrowsingLookup cfg net []) of
                             Succeeded ms \<Rightarrow> map threat_finding ms | Failed e \<Rightarrow> [])
                     else [])
               \<and> (\<forall>key urls. SafeBrowsingRequest key urls \<in> set sent \<longrightarrow> urls = [])"
    if a: "analyze cfg net body = (Analyzed r, sent)" for r sent
  proof -
    have "urls = []" if "SafeBrowsingRequest key urls \<in> set sent" for key urls
    proof -
      from that a have "SafeBrowsingRequest key urls \<in> set (snd (analyze cfg net body))"
        by simp
      then obtain p' where "get_prop body ''payload'' = Some p'"
        and "SafeBrowsingRequest key urls =
               SafeBrowsingRequest (GOOGLE_KEY cfg) (normalize_links (get_prop p' ''links''))
             \<or> (\<exists>tx. normalize_text (get_prop p' ''text'') = Inr tx \<and>
                      SafeBrowsingRequest key urls = LanguageToolRequest (LT_URL cfg) tx)"
        by (rule analyze_sent)
      with assms(1) show ?thesis by (auto simp: links)
    qed
    moreover have "suspiciousLinks r = finalSuspicious
                    (if option_on (get_prop body ''options'') ''linkScanner''
                     then (case fst (googleSafeBrowsingLookup cfg net []) of
                             Succeeded ms \<Rightarrow> map threat_finding ms | Failed e \<Rightarrow> [])
                     else [])"
    proof (cases "option_on (get_prop body ''options'') ''linkScanner''")
      case True
      from a assms(1) True obtain suspicious sent1 where
        "link_scanning cfg net [] = (Inr suspicious, sent1)"
        and "suspiciousLinks r = finalSuspicious suspicious"
        by (auto elim!: analyze_Analyzed simp: links)
      with True show ?thesis
        by (auto elim!: link_scanning_Inr)
    next
      case False
      with a show ?thesis by (auto elim!: analyze_Analyzed)
    qed
    ultimately show ?thesis by blast
  qed
  from links same ok bad ev show ?thesis by blast
qed

theorem links_not_an_array_witness:
  "normalize_links (get_prop (JObj [(''text'', JStr ''hello''),
                                    (''links'', JStr ''http://bank.example'')]) ''links'') = []
   \<and> status (fst (analyze unkeyed_config sample_network no_links_body)) = 200"
  using links_not_an_array [of no_links_body
      "JObj [(''text'', JStr ''hello''), (''links'', JStr ''http://bank.example'')]"
      unkeyed_config sample_network]
  by (simp add: no_links_body_def normalize_text_def)

lemma number_text_analyze:
  "analyze keyed_config sample_network number_text_body = (ServerError TypeError, [])"
  by (simp add: analyze_def analyze_payload_def number_text_body_def normalize_text_def)

text \<open>
  A request with a payload, no links field and the number 5 as its text: the handler
  throws on \<^verbatim>\<open>.slice\<close> and answers 500.
\<close>

theorem links_not_an_array_counterexample:
  "get_prop number_text_body ''payload'' = Some (JObj [(''text'', JNum 5)])
   \<and> truthy (JObj [(''text'', JNum 5)])
   \<and> get_prop (JObj [(''text'', JNum 5)]) ''links'' = None
   \<and> analyze keyed_config sample_network number_text_body = (ServerError TypeError, [])"
  by (simp add: number_text_analyze) (simp add: number_text_body_def)

end
